theory Spec2Isabelle
  imports Main "HOL-Library.Sublist"
begin

section \<open>FlashMemo: data model (types.ts)\<close>

text \<open>
  A JavaScript string is a sequence of UTF-16 code units. The program never looks inside a
  string except to test it for emptiness (truthiness) and to trim white space, so a string
  is modelled as the list of its code units; the literals of the source are written out as
  their code units, with the code points named in the text beside them.
\<close>

type_synonym jsstring = "nat list"

text \<open>\<^verbatim>\<open>status?: 'pending' | 'processed'\<close>: the two literals; the optional field is an option.\<close>

datatype Status = Pending | Processed

text \<open>\<^verbatim>\<open>interface MetaTags\<close>: five optional keys, each a list of strings.\<close>

record MetaTags =
  Action :: "jsstring list option"
  Object :: "jsstring list option"
  People :: "jsstring list option"
  Location :: "jsstring list option"
  Time :: "jsstring list option"

text \<open>
  Modelled from the spec: the optional fields \<^verbatim>\<open>audioData\<close> and \<^verbatim>\<open>mimeType\<close> (the base64-encoded
  recorded audio and its declared content type, present only for voice-captured records).
  The declaration of the interface in \<^verbatim>\<open>types.ts\<close> does not list them; the capture bar writes
  them and \<^verbatim>\<open>handleBatchProcess\<close> and \<^verbatim>\<open>MemoryCard\<close> read them.

  The other fields are those of \<^verbatim>\<open>interface Memory\<close>. The field \<^verbatim>\<open>id\<close> is written \<open>id'\<close> (the
  name \<open>id\<close> is the identity function of HOL). The timestamp is a number of milliseconds
  since the epoch, an integer here.
\<close>

record Memory =
  id' :: jsstring
  rawContent :: jsstring
  processedContent :: jsstring
  timestamp :: int
  tags :: MetaTags
  status :: "Status option"
  audioData :: "jsstring option"
  mimeType :: "jsstring option"

record ClusterItem =
  memoryId :: jsstring
  snippet :: jsstring
  relevance :: "jsstring option"

record ResultCluster =
  dimension :: jsstring
  title :: jsstring
  items :: "ClusterItem list"

record SearchResult =
  directAnswer :: "jsstring option"
  clusters :: "ResultCluster list"

text \<open>The empty object literal \<^verbatim>\<open>{}\<close> used for the tags of a fresh memory.\<close>

definition noTags :: MetaTags where
  "noTags = \<lparr>Action = None, Object = None, People = None, Location = None, Time = None\<rparr>"

section \<open>Persistence adapter (storageService.ts)\<close>

text \<open>
  The adapter keeps the whole collection as one JSON text under one key of the browser's
  local storage. The item is modelled by what reading it yields:
  \<^item> \<open>NoItem\<close>: \<^verbatim>\<open>getItem\<close> returns \<^verbatim>\<open>null\<close> (or the empty text, which is falsy too);
  \<^item> \<open>Unreadable\<close>: a text on which \<^verbatim>\<open>JSON.parse\<close> or the following \<^verbatim>\<open>map\<close> throws;
  \<^item> \<open>Json ms\<close>: a text that parses to the array \<open>ms\<close> of memory objects.
  \<^verbatim>\<open>JSON.stringify\<close> followed by \<^verbatim>\<open>JSON.parse\<close> is taken to give back the same memory objects
  (an absent optional field stays absent).
\<close>

datatype item = NoItem | Unreadable | Json "Memory list"

text \<open>\<^verbatim>\<open>{...m, status: m.status || 'processed'}\<close>\<close>

definition withStatus :: "Memory \<Rightarrow> Memory" where
  "withStatus m = m\<lparr>status := Some (case status m of None \<Rightarrow> Processed | Some s \<Rightarrow> s)\<rparr>"

text \<open>
  \<^verbatim>\<open>getMemories\<close>: the early return on a missing item, the \<^verbatim>\<open>catch\<close> branch that returns the
  empty array (its console message is not recorded), and the backward-compatibility map.
\<close>

fun getMemories :: "item \<Rightarrow> Memory list" where
  "getMemories NoItem = []"
| "getMemories Unreadable = []"
| "getMemories (Json parsed) = map withStatus parsed"

text \<open>\<^verbatim>\<open>saveMemory\<close>: read, prepend, write the whole array back.\<close>

definition saveMemory :: "Memory \<Rightarrow> item \<Rightarrow> item" where
  "saveMemory memory s = (let current = getMemories s; updated = memory # current in Json updated)"

text \<open>\<^verbatim>\<open>Array.prototype.findIndex\<close>: the index of the first element that satisfies the
  predicate, \<open>-1\<close> when there is none.\<close>

fun findIndex :: "('a \<Rightarrow> bool) \<Rightarrow> 'a list \<Rightarrow> int" where
  "findIndex P [] = - 1"
| "findIndex P (x # xs) =
     (if P x then 0 else (let i = findIndex P xs in if i = - 1 then - 1 else i + 1))"

text \<open>\<^verbatim>\<open>updateMemory\<close>: nothing is written when no element has the id.\<close>

definition updateMemory :: "Memory \<Rightarrow> item \<Rightarrow> item" where
  "updateMemory memory s =
     (let current = getMemories s;
          index = findIndex (\<lambda>m. id' m = id' memory) current
      in if index \<noteq> - 1 then Json (current[nat index := memory]) else s)"

text \<open>\<^verbatim>\<open>clearMemories\<close>: \<^verbatim>\<open>removeItem\<close>.\<close>

definition clearMemories :: "item \<Rightarrow> item" where
  "clearMemories s = NoItem"

section \<open>Remote services (geminiService.ts)\<close>

text \<open>
  A call of \<^verbatim>\<open>ai.models.generateContent\<close> followed by \<^verbatim>\<open>JSON.parse(response.text)\<close> has four
  outcomes: the call rejects (\<open>Rejects\<close>), the response has no text (\<open>NoText\<close>), the text
  does not parse (\<open>BadJson\<close>), or it parses to a value (\<open>Parsed v\<close>). The services do not
  validate the parsed value; it is taken to have the shape of the response schema they
  declare.
\<close>

datatype 'a reply = Rejects | NoText | BadJson | Parsed 'a

datatype exn = RemoteFailure | SyntaxError | Error string | RangeError

text \<open>The argument of \<^verbatim>\<open>analyzeInput\<close>: a string, or \<^verbatim>\<open>{mimeType, data}\<close>.\<close>

datatype analyzeArg = Text jsstring | InlineData jsstring jsstring

record Analysis =
  processedContent' :: jsstring
  tags' :: MetaTags

text \<open>
  What a request to the remote model is made of. The prompt texts are fixed; a request is
  represented by the values substituted into them: the input part and the context date of
  an extraction, the query and the memories listed in the context of a retrieval, the
  joined recent contents of a suggestion request.
\<close>

datatype request =
    Extraction analyzeArg int
  | Retrieval jsstring "Memory list"
  | Suggestion jsstring

text \<open>
  The remote model is a parameter: it answers the \<open>n\<close>-th request the program has issued
  (counting from 0), given that request.
\<close>

type_synonym 'a remote = "nat \<Rightarrow> request \<Rightarrow> 'a reply"

text \<open>
  The context date of an extraction is \<^verbatim>\<open>new Date(mem.timestamp)\<close>. A \<^verbatim>\<open>Date\<close> holds a time value of at
  most 8.64e15 milliseconds on either side of the epoch; beyond that the date is invalid and
  \<^verbatim>\<open>toISOString\<close> throws a \<^verbatim>\<open>RangeError\<close>.
\<close>

definition validTime :: "int \<Rightarrow> bool" where
  "validTime t \<longleftrightarrow> - 8640000000000000 \<le> t \<and> t \<le> 8640000000000000"

text \<open>\<^verbatim>\<open>analyzeInput\<close>: the prompt is built first, with \<^verbatim>\<open>contextDate.toISOString()\<close>, which throws
  for an invalid date before any request is made; then one request;
  \<^verbatim>\<open>throw new Error("Failed to analyze input")\<close> when the response has no text. The second
  component is the log of requests issued so far.\<close>

definition analyzeInput ::
  "Analysis remote \<Rightarrow> analyzeArg \<Rightarrow> int \<Rightarrow> request list \<Rightarrow> (exn + Analysis) \<times> request list" where
  "analyzeInput ai input contextDate sent =
     (if \<not> validTime contextDate then (Inl RangeError, sent)
      else
        let req = Extraction input contextDate; sent' = sent @ [req] in
        case ai (length sent) req of
          Rejects \<Rightarrow> (Inl RemoteFailure, sent')
        | NoText \<Rightarrow> (Inl (Error ''Failed to analyze input''), sent')
        | BadJson \<Rightarrow> (Inl SyntaxError, sent')
        | Parsed v \<Rightarrow> (Inr v, sent'))"

text \<open>\<^verbatim>\<open>semanticSearch\<close>: every memory it is given becomes a line of the prompt's context (the
  date of a line is formatted with \<^verbatim>\<open>toLocaleDateString\<close>, which does not throw).\<close>

definition semanticSearch ::
  "SearchResult remote \<Rightarrow> jsstring \<Rightarrow> Memory list \<Rightarrow> request list
     \<Rightarrow> (exn + SearchResult) \<times> request list" where
  "semanticSearch ai query' memories' sent =
     (let req = Retrieval query' memories'; sent' = sent @ [req] in
      case ai (length sent) req of
        Rejects \<Rightarrow> (Inl RemoteFailure, sent')
      | NoText \<Rightarrow> (Inl (Error ''Failed to perform search''), sent')
      | BadJson \<Rightarrow> (Inl SyntaxError, sent')
      | Parsed v \<Rightarrow> (Inr v, sent'))"

text \<open>\<^verbatim>\<open>Array.prototype.join\<close>\<close>

fun join :: "jsstring \<Rightarrow> jsstring list \<Rightarrow> jsstring" where
  "join sep [] = []"
| "join sep [x] = x"
| "join sep (x # y # ys) = x @ sep @ join sep (y # ys)"

text \<open>The three strings \<^verbatim>\<open>generateSuggestions\<close> returns for an empty array:
  U+6211 U+6700 U+8FD1 U+4E70 U+4E86 U+4EC0 U+4E48 U+FF1F,
  U+6628 U+5929 U+6211 U+89C1 U+4E86 U+8C01 U+FF1F,
  U+663E U+793A U+6211 U+7684 U+5F85 U+529E U+4E8B U+9879.\<close>

definition staticSuggestions :: "jsstring list" where
  "staticSuggestions =
     [[0x6211, 0x6700, 0x8FD1, 0x4E70, 0x4E86, 0x4EC0, 0x4E48, 0xFF1F],
      [0x6628, 0x5929, 0x6211, 0x89C1, 0x4E86, 0x8C01, 0xFF1F],
      [0x663E, 0x793A, 0x6211, 0x7684, 0x5F85, 0x529E, 0x4E8B, 0x9879]]"

text \<open>\<^verbatim>\<open>generateSuggestions\<close>: the early return without a request; the separator of the join is
  \<^verbatim>\<open>'; '\<close>; a response without text gives the empty array, not an error.\<close>

definition generateSuggestions ::
  "jsstring list remote \<Rightarrow> Memory list \<Rightarrow> request list \<Rightarrow> (exn + jsstring list) \<times> request list" where
  "generateSuggestions ai memories' sent =
     (if length memories' = 0 then (Inr staticSuggestions, sent)
      else
        let recent = join [0x3B, 0x20] (map processedContent (take 10 memories'));
            req = Suggestion recent; sent' = sent @ [req] in
        case ai (length sent) req of
          Rejects \<Rightarrow> (Inl RemoteFailure, sent')
        | NoText \<Rightarrow> (Inr [], sent')
        | BadJson \<Rightarrow> (Inl SyntaxError, sent')
        | Parsed v \<Rightarrow> (Inr v, sent'))"

section \<open>The suggestions component (SmartSuggestions.tsx)\<close>

record Suggestions =
  suggestions :: "jsstring list"
  loading :: bool

text \<open>The three strings of the component's \<^verbatim>\<open>catch\<close>:
  U+6211 U+4ECA U+5929 U+505A U+4E86 U+4EC0 U+4E48 U+FF1F,
  U+663E U+793A U+6211 U+63D0 U+5230 U+7684 U+4EBA,
  U+67E5 U+770B U+6700 U+8FD1 U+7684 U+8D2D U+7269.\<close>

definition catchSuggestions :: "jsstring list" where
  "catchSuggestions =
     [[0x6211, 0x4ECA, 0x5929, 0x505A, 0x4E86, 0x4EC0, 0x4E48, 0xFF1F],
      [0x663E, 0x793A, 0x6211, 0x63D0, 0x5230, 0x7684, 0x4EBA],
      [0x67E5, 0x770B, 0x6700, 0x8FD1, 0x7684, 0x8D2D, 0x7269]]"

text \<open>The component's effect, run to completion: nothing happens for an empty array;
  otherwise \<^verbatim>\<open>then(setSuggestions)\<close>, \<^verbatim>\<open>catch\<close> and \<^verbatim>\<open>finally\<close>.\<close>

definition SmartSuggestions ::
  "jsstring list remote \<Rightarrow> Memory list \<Rightarrow> Suggestions \<times> request list \<Rightarrow> Suggestions \<times> request list" where
  "SmartSuggestions ai memories' c =
     (case c of (ui, sent) \<Rightarrow>
        if length memories' > 0 then
          (case generateSuggestions ai memories' sent of
             (Inr v, sent') \<Rightarrow> (ui\<lparr>suggestions := v, loading := False\<rparr>, sent')
           | (Inl e, sent') \<Rightarrow> (ui\<lparr>suggestions := catchSuggestions, loading := False\<rparr>, sent'))
        else (ui, sent))"

section \<open>The application (App.tsx, CaptureBar.tsx)\<close>

text \<open>
  The state of the application: the local storage item, the log of requests sent to the
  remote model, the notices shown with \<^verbatim>\<open>alert\<close>, the labels given to \<^verbatim>\<open>console.error\<close>, and the
  React state of \<^verbatim>\<open>App\<close>.
\<close>

record App =
  storage :: item
  requests :: "request list"
  alerts :: "jsstring list"
  consoleErrors :: "string list"
  memories :: "Memory list"
  query :: jsstring
  searchResult :: "SearchResult option"
  isSearching :: bool
  isProcessingPending :: bool

text \<open>\<^verbatim>\<open>refreshMemories\<close>: \<^verbatim>\<open>loaded.sort((a, b) => b.timestamp - a.timestamp)\<close>, a stable sort by
  descending timestamp.\<close>

definition refreshMemories :: "App \<Rightarrow> App" where
  "refreshMemories st =
     (let loaded = getMemories (storage st);
          sorted = sort_key (\<lambda>m. - timestamp m) loaded
      in st\<lparr>memories := sorted\<rparr>)"

text \<open>\<^verbatim>\<open>memories.filter(m => m.status === 'processed')\<close>\<close>

definition processedMemories :: "App \<Rightarrow> Memory list" where
  "processedMemories st = filter (\<lambda>m. status m = Some Processed) (memories st)"

text \<open>\<^verbatim>\<open>String.prototype.trim\<close> removes the white space and line terminator code units of
  ECMAScript from both ends.\<close>

definition isWhiteSpace :: "nat \<Rightarrow> bool" where
  "isWhiteSpace c \<longleftrightarrow>
     c \<in> {0x9, 0xA, 0xB, 0xC, 0xD, 0x20, 0xA0, 0x1680, 0x2028, 0x2029, 0x202F, 0x205F, 0x3000, 0xFEFF}
     \<or> (0x2000 \<le> c \<and> c \<le> 0x200A)"

definition trim :: "jsstring \<Rightarrow> jsstring" where
  "trim s = rev (dropWhile isWhiteSpace (rev (dropWhile isWhiteSpace s)))"

definition handleClearSearch :: "App \<Rightarrow> App" where
  "handleClearSearch st = st\<lparr>query := [], searchResult := None, isSearching := False\<rparr>"

text \<open>\<^verbatim>\<open>handleSearch\<close>: the early return on a blank text; the search is given
  \<^verbatim>\<open>processedMemories\<close>; a failure is logged to the console only.\<close>

definition handleSearch :: "SearchResult remote \<Rightarrow> jsstring \<Rightarrow> App \<Rightarrow> App" where
  "handleSearch ai text' st =
     (if trim text' = [] then handleClearSearch st
      else
        let st1 = st\<lparr>query := text', isSearching := True\<rparr> in
        case semanticSearch ai text' (processedMemories st1) (requests st1) of
          (Inr result, sent) \<Rightarrow>
            st1\<lparr>requests := sent, searchResult := Some result, isSearching := False\<rparr>
        | (Inl e, sent) \<Rightarrow>
            st1\<lparr>requests := sent, consoleErrors := consoleErrors st1 @ [''Search error''],
                isSearching := False\<rparr>)"

text \<open>\<^verbatim>\<open>mem.audioData && mem.mimeType\<close>: an absent field and the empty string are falsy.\<close>

definition analyzeArgOf :: "Memory \<Rightarrow> analyzeArg" where
  "analyzeArgOf mem =
     (case (audioData mem, mimeType mem) of
        (Some d, Some t) \<Rightarrow> if d \<noteq> [] \<and> t \<noteq> [] then InlineData t d else Text (rawContent mem)
      | _ \<Rightarrow> Text (rawContent mem))"

text \<open>\<^verbatim>\<open>{...mem, processedContent: result.processedContent, tags: result.tags, status: 'processed'}\<close>\<close>

definition updatedMem :: "Memory \<Rightarrow> Analysis \<Rightarrow> Memory" where
  "updatedMem mem result =
     mem\<lparr>processedContent := processedContent' result, tags := tags' result,
         status := Some Processed\<rparr>"

text \<open>
  The \<^verbatim>\<open>for (const mem of pending)\<close> loop of \<^verbatim>\<open>handleBatchProcess\<close>. An exception of
  \<^verbatim>\<open>analyzeInput\<close> leaves the loop; the state reached so far stays. The run is taken on its
  own: no other handler runs while the loop waits for the remote model.
\<close>

fun forOfPending :: "Analysis remote \<Rightarrow> Memory list \<Rightarrow> App \<Rightarrow> exn option \<times> App" where
  "forOfPending ai [] st = (None, st)"
| "forOfPending ai (mem # rest) st =
     (case analyzeInput ai (analyzeArgOf mem) (timestamp mem) (requests st) of
        (Inl e, sent) \<Rightarrow> (Some e, st\<lparr>requests := sent\<rparr>)
      | (Inr result, sent) \<Rightarrow>
          forOfPending ai rest
            (st\<lparr>requests := sent, storage := updateMemory (updatedMem mem result) (storage st)\<rparr>))"

text \<open>The notice of the \<^verbatim>\<open>catch\<close> branch: U+90E8 U+5206 U+8BB0 U+5FC6 U+6574 U+7406 U+5931 U+8D25
  U+FF0C U+8BF7 U+91CD U+8BD5.\<close>

definition batchFailureNotice :: jsstring where
  "batchFailureNotice =
     [0x90E8, 0x5206, 0x8BB0, 0x5FC6, 0x6574, 0x7406, 0x5931, 0x8D25, 0xFF0C, 0x8BF7, 0x91CD, 0x8BD5]"

text \<open>\<^verbatim>\<open>handleBatchProcess\<close>: the early return when nothing is pending; \<^verbatim>\<open>refreshMemories\<close> runs
  only when the loop completes; the \<^verbatim>\<open>finally\<close> clears the flag on both paths.\<close>

definition handleBatchProcess :: "Analysis remote \<Rightarrow> App \<Rightarrow> App" where
  "handleBatchProcess ai st =
     (let pending = filter (\<lambda>m. status m = Some Pending) (memories st) in
      if length pending = 0 then st
      else
        let st1 = st\<lparr>isProcessingPending := True\<rparr> in
        case forOfPending ai pending st1 of
          (None, st2) \<Rightarrow> (refreshMemories st2)\<lparr>isProcessingPending := False\<rparr>
        | (Some e, st2) \<Rightarrow>
            st2\<lparr>consoleErrors := consoleErrors st2 @ [''Batch processing failed''],
                alerts := alerts st2 @ [batchFailureNotice],
                isProcessingPending := False\<rparr>)"

text \<open>
  \<^verbatim>\<open>handleTextSubmit\<close> of the capture bar, with \<^verbatim>\<open>onMemoryAdded = refreshMemories\<close>. The custom
  date of the developer tools, the clock and the result of \<^verbatim>\<open>generateId\<close> are parameters. The
  capture bar's own text field and success flag are left out.
\<close>

definition handleTextSubmit :: "jsstring \<Rightarrow> int option \<Rightarrow> int \<Rightarrow> jsstring \<Rightarrow> App \<Rightarrow> App" where
  "handleTextSubmit text' customDate now newId st =
     (if trim text' = [] then st
      else
        let timestamp' = (case customDate of Some d \<Rightarrow> d | None \<Rightarrow> now);
            newMemory = \<lparr>id' = newId, rawContent = text', processedContent = text',
                         timestamp = timestamp', tags = noTags, status = Some Pending,
                         audioData = None, mimeType = None\<rparr>
        in refreshMemories (st\<lparr>storage := saveMemory newMemory (storage st)\<rparr>))"

text \<open>
  \<^verbatim>\<open>saveAudioMemory\<close> of the capture bar, from the point where the recording has been read as
  base64 content with its MIME type. The placeholders are
  U+005B U+8BED U+97F3 U+8BB0 U+5F55 U+005D and the same followed by
  U+0020 U+0028 U+5F85 U+6574 U+7406 U+0029.
\<close>

definition saveAudioMemory :: "jsstring \<Rightarrow> jsstring \<Rightarrow> int option \<Rightarrow> int \<Rightarrow> jsstring \<Rightarrow> App \<Rightarrow> App" where
  "saveAudioMemory base64Content mimeType' customDate now newId st =
     (let timestamp' = (case customDate of Some d \<Rightarrow> d | None \<Rightarrow> now);
          newMemory = \<lparr>id' = newId,
                       rawContent = [0x5B, 0x8BED, 0x97F3, 0x8BB0, 0x5F55, 0x5D],
                       processedContent = [0x5B, 0x8BED, 0x97F3, 0x8BB0, 0x5F55, 0x5D,
                                           0x20, 0x28, 0x5F85, 0x6574, 0x7406, 0x29],
                       timestamp = timestamp', tags = noTags, status = Some Pending,
                       audioData = Some base64Content, mimeType = Some mimeType'\<rparr>
      in refreshMemories (st\<lparr>storage := saveMemory newMemory (storage st)\<rparr>))"

text \<open>
  The suggestions of the main view: \<^verbatim>\<open>App\<close> renders the component only while there is no
  search result and no search in progress, and passes it \<^verbatim>\<open>processedMemories\<close>.
\<close>

definition renderSuggestions ::
  "jsstring list remote \<Rightarrow> App \<Rightarrow> Suggestions \<Rightarrow> Suggestions \<times> App" where
  "renderSuggestions ai st ui =
     (if searchResult st = None \<and> \<not> isSearching st then
        (case SmartSuggestions ai (processedMemories st) (ui, requests st) of
           (ui', sent) \<Rightarrow> (ui', st\<lparr>requests := sent\<rparr>))
      else (ui, st))"

text \<open>The initial React state of \<^verbatim>\<open>App\<close> (the \<^verbatim>\<open>useState\<close> defaults), with nothing stored, sent
  or shown yet; and the state after the mount effect, which calls \<^verbatim>\<open>refreshMemories\<close>, over
  a given stored item.\<close>

definition initialApp :: App where
  "initialApp = \<lparr>storage = NoItem, requests = [], alerts = [], consoleErrors = [], memories = [],
     query = [], searchResult = None, isSearching = False, isProcessingPending = False\<rparr>"

definition mounted :: "item \<Rightarrow> App" where
  "mounted s = refreshMemories (initialApp\<lparr>storage := s\<rparr>)"

section \<open>Vocabulary of the properties\<close>

text \<open>
  The calls of the persistence adapter as values, so that a sequence of calls can be run:
  \<open>Insert\<close> is \<^verbatim>\<open>saveMemory\<close>, \<open>UpdateById\<close> is \<^verbatim>\<open>updateMemory\<close>, \<open>ClearAll\<close> is
  \<^verbatim>\<open>clearMemories\<close>.
\<close>

datatype adapterCall = Insert Memory | UpdateById Memory | ClearAll

fun exec :: "adapterCall \<Rightarrow> item \<Rightarrow> item" where
  "exec (Insert m) s = saveMemory m s"
| "exec (UpdateById m) s = updateMemory m s"
| "exec ClearAll s = clearMemories s"

text \<open>The collection an item holds: the parsed array, empty for a missing or unreadable item.\<close>

fun collection :: "item \<Rightarrow> Memory list" where
  "collection NoItem = []"
| "collection Unreadable = []"
| "collection (Json ms) = ms"

text \<open>
  The adapter's contract in the specification's words, on a plain collection:
  insert prepends; update-by-id is a full replacement of the record with the matching id and
  does nothing when the id is absent; clear-all empties the collection; get-all treats a
  record without a status as processed.
\<close>

definition spec_insert :: "Memory \<Rightarrow> Memory list \<Rightarrow> Memory list" where
  "spec_insert m c = m # c"

fun spec_updateById :: "Memory \<Rightarrow> Memory list \<Rightarrow> Memory list" where
  "spec_updateById m [] = []"
| "spec_updateById m (x # c) = (if id' x = id' m then m # c else x # spec_updateById m c)"

definition spec_clearAll :: "Memory list \<Rightarrow> Memory list" where
  "spec_clearAll c = []"

definition spec_getAll :: "Memory list \<Rightarrow> Memory list" where
  "spec_getAll c = map (\<lambda>m. if status m = None then m\<lparr>status := Some Processed\<rparr> else m) c"

fun spec_effect :: "adapterCall \<Rightarrow> Memory list \<Rightarrow> Memory list" where
  "spec_effect (Insert m) c = spec_insert m c"
| "spec_effect (UpdateById m) c = spec_updateById m c"
| "spec_effect ClearAll c = spec_clearAll c"

text \<open>The record a call writes, if any, carries a status (as every record the application
  writes does).\<close>

fun carriesStatus :: "adapterCall \<Rightarrow> bool" where
  "carriesStatus (Insert m) = (status m \<noteq> None)"
| "carriesStatus (UpdateById m) = (status m \<noteq> None)"
| "carriesStatus ClearAll = True"

text \<open>The request \<^verbatim>\<open>handleBatchProcess\<close> sends for a memory, and the list it iterates over.\<close>

definition extractionOf :: "Memory \<Rightarrow> request" where
  "extractionOf mem = Extraction (analyzeArgOf mem) (timestamp mem)"

definition pendingOf :: "App \<Rightarrow> Memory list" where
  "pendingOf st = filter (\<lambda>m. status m = Some Pending) (memories st)"

text \<open>
  The in-memory list is the one \<^verbatim>\<open>refreshMemories\<close> would read now: the React state and the
  stored item show the same collection. The ids of the stored records are unique, as the
  data model requires.
\<close>

definition upToDate :: "App \<Rightarrow> bool" where
  "upToDate st \<longleftrightarrow> memories st = memories (refreshMemories st)"

definition uniqueIds :: "App \<Rightarrow> bool" where
  "uniqueIds st \<longleftrightarrow> distinct (map id' (getMemories (storage st)))"

text \<open>One completed iteration of the loop, as an effect on the stored item.\<close>

definition reconcile :: "Memory \<times> Analysis \<Rightarrow> item \<Rightarrow> item" where
  "reconcile u s = updateMemory (updatedMem (fst u) (snd u)) s"

text \<open>The records for which the loop over \<open>ps\<close> has sent a request when it has got \<open>k\<close> results:
  the first \<open>k\<close>, and the next one if there is one and its date is valid.\<close>

definition requested :: "Memory list \<Rightarrow> nat \<Rightarrow> Memory list" where
  "requested ps k = take (if k < length ps \<and> validTime (timestamp (ps ! k)) then Suc k else k) ps"

section \<open>Example data\<close>

text \<open>A small text memory with the given id, timestamp and status (the content is \<^verbatim>\<open>hi\<close>).\<close>

definition memo :: "jsstring \<Rightarrow> int \<Rightarrow> Status option \<Rightarrow> Memory" where
  "memo i t s = \<lparr>id' = i, rawContent = [0x68, 0x69], processedContent = [0x68, 0x69],
     timestamp = t, tags = noTags, status = s, audioData = None, mimeType = None\<rparr>"

text \<open>Stored collections: four records of which three are pending; a pending record newer
  than a processed one; a pending record newer than ten processed ones.\<close>

definition fourNotes :: item where
  "fourNotes = Json [memo [0x61] 5 (Some Pending), memo [0x62] 7 (Some Processed),
                     memo [0x63] 9 (Some Pending), memo [0x64] 8 (Some Pending)]"

definition twoNotes :: item where
  "twoNotes = Json [(memo [0x61] 9 (Some Pending))\<lparr>processedContent := [0x70]\<rparr>,
                    (memo [0x62] 7 (Some Processed))\<lparr>processedContent := [0x71]\<rparr>]"

definition elevenNotes :: item where
  "elevenNotes = Json
     [(memo [0x70] 20 (Some Pending))\<lparr>processedContent := [0x70]\<rparr>,
      (memo [0x39] 19 (Some Processed))\<lparr>processedContent := [0x39]\<rparr>,
      (memo [0x38] 18 (Some Processed))\<lparr>processedContent := [0x38]\<rparr>,
      (memo [0x37] 17 (Some Processed))\<lparr>processedContent := [0x37]\<rparr>,
      (memo [0x36] 16 (Some Processed))\<lparr>processedContent := [0x36]\<rparr>,
      (memo [0x35] 15 (Some Processed))\<lparr>processedContent := [0x35]\<rparr>,
      (memo [0x34] 14 (Some Processed))\<lparr>processedContent := [0x34]\<rparr>,
      (memo [0x33] 13 (Some Processed))\<lparr>processedContent := [0x33]\<rparr>,
      (memo [0x32] 12 (Some Processed))\<lparr>processedContent := [0x32]\<rparr>,
      (memo [0x31] 11 (Some Processed))\<lparr>processedContent := [0x31]\<rparr>,
      (memo [0x30] 10 (Some Processed))\<lparr>processedContent := [0x30]\<rparr>]"

text \<open>Two pending records of which the newer has a timestamp one millisecond beyond the
  range of a \<^verbatim>\<open>Date\<close>.\<close>

definition farNotes :: item where
  "farNotes = Json [memo [0x61] 8640000000000001 (Some Pending), memo [0x62] 7 (Some Pending)]"

text \<open>Two extraction results; remote models that answer only the first request, that answer
  every request with the same value, that reject every request, and that answer every
  request with a response without text.\<close>

definition retidy :: Analysis where
  "retidy = \<lparr>processedContent' = [0x5A], tags' = noTags\<rparr>"

definition silent :: "'a remote" where
  "silent n req = NoText"


definition tidy :: Analysis where
  "tidy = \<lparr>processedContent' = [0x48, 0x69], tags' = noTags\<lparr>Action := Some [[0x67, 0x6F]]\<rparr>\<rparr>"

definition firstOnly :: "Analysis remote" where
  "firstOnly n req = (if n = 0 then Parsed tidy else Rejects)"

definition always :: "'a \<Rightarrow> 'a remote" where
  "always v n req = Parsed v"

definition down :: "'a remote" where
  "down n req = Rejects"

definition idle :: Suggestions where
  "idle = \<lparr>suggestions = [], loading = False\<rparr>"

text \<open>A voice memory (data \<^verbatim>\<open>AB\<close>, type \<^verbatim>\<open>audio/webm\<close>) captured at time 100 over a store with one
  processed record.\<close>

definition voiceApp :: App where
  "voiceApp = saveAudioMemory [0x41, 0x42] [0x61, 0x75, 0x64, 0x69, 0x6F, 0x2F, 0x77, 0x65, 0x62, 0x6D]
     None 100 [0x76] (mounted (Json [memo [0x62] 7 (Some Processed)]))"

text \<open>The scenario of the specification: the text U+4E70 U+725B U+5976, and the extraction
  result with the content U+8D2D U+4E70 U+725B U+5976 and the single tag U+725B U+5976 under
  \<^verbatim>\<open>Object\<close>.\<close>

definition scenarioText :: jsstring where
  "scenarioText = [0x4E70, 0x725B, 0x5976]"

definition scenarioAnalysis :: Analysis where
  "scenarioAnalysis = \<lparr>processedContent' = [0x8D2D, 0x4E70, 0x725B, 0x5976],
     tags' = noTags\<lparr>Object := Some [[0x725B, 0x5976]]\<rparr>\<rparr>"

section \<open>Properties of the persistence adapter\<close>

lemma withStatus_idem [simp]: "withStatus (withStatus m) = withStatus m"
  by (simp add: withStatus_def)

lemma id_withStatus [simp]: "id' (withStatus m) = id' m"
  by (simp add: withStatus_def)

lemma status_withStatus: "status (withStatus m) \<noteq> None"
  by (simp add: withStatus_def)

lemma withStatus_fixed: "status m \<noteq> None \<Longrightarrow> withStatus m = m"
  by (cases "status m") (simp_all add: withStatus_def)

lemma getMemories_normal: "map withStatus (getMemories s) = getMemories s"
  by (cases s) simp_all

lemma getMemories_status: "m \<in> set (getMemories s) \<Longrightarrow> status m \<noteq> None"
  by (cases s) (auto simp: withStatus_def)

lemma findIndex_ge: "- 1 \<le> findIndex P xs"
  by (induction xs) (auto simp: Let_def)

lemma findIndex_none: "findIndex P xs = - 1 \<longleftrightarrow> (\<forall>x \<in> set xs. \<not> P x)"
proof (induction xs)
  case Nil
  show ?case by simp
next
  case (Cons x xs)
  have "- 1 \<le> findIndex P xs" by (rule findIndex_ge)
  with Cons show ?case by (auto simp: Let_def)
qed

lemma findIndex_found:
  "findIndex P xs \<noteq> - 1 \<Longrightarrow>
     nat (findIndex P xs) < length xs \<and> P (xs ! nat (findIndex P xs)) \<and>
     (\<forall>j < nat (findIndex P xs). \<not> P (xs ! j))"
proof (induction xs)
  case Nil
  then show ?case by simp
next
  case (Cons x xs)
  show ?case
  proof (cases "P x")
    case True
    then show ?thesis by simp
  next
    case False
    with Cons.prems have ne: "findIndex P xs \<noteq> - 1" by (auto simp: Let_def split: if_splits)
    have ge: "0 \<le> findIndex P xs" using findIndex_ge [of P xs] ne by linarith
    have eq: "nat (findIndex P xs + 1) = Suc (nat (findIndex P xs))" using ge by simp
    from Cons.IH [OF ne] False ne show ?thesis
      by (auto simp: Let_def eq nth_Cons split: nat.splits)
  qed
qed


lemma spec_getAll_eq: "spec_getAll c = map withStatus c"
proof -
  have "(if status m = None then m\<lparr>status := Some Processed\<rparr> else m) = withStatus m" for m
    by (cases "status m") (simp_all add: withStatus_def)
  then show ?thesis by (simp add: spec_getAll_def)
qed

lemma getMemories_collection: "getMemories s = map withStatus (collection s)"
  by (cases s) simp_all

lemma findIndex_update:
  assumes "id' y = id' m" and "findIndex (\<lambda>x. id' x = id' m) xs \<noteq> - 1"
  shows "xs[nat (findIndex (\<lambda>x. id' x = id' m) xs) := y] = spec_updateById y xs"
  using assms(2)
proof (induction xs)
  case Nil
  then show ?case by simp
next
  case (Cons x xs)
  show ?case
  proof (cases "id' x = id' m")
    case True
    then show ?thesis using assms(1) by simp
  next
    case False
    with Cons.prems have ne: "findIndex (\<lambda>x. id' x = id' m) xs \<noteq> - 1"
      by (auto simp: Let_def split: if_splits)
    have ge: "0 \<le> findIndex (\<lambda>x. id' x = id' m) xs"
      using findIndex_ge [of "\<lambda>x. id' x = id' m" xs] ne by linarith
    have eq: "nat (findIndex (\<lambda>x. id' x = id' m) xs + 1) = Suc (nat (findIndex (\<lambda>x. id' x = id' m) xs))"
      using ge by simp
    from Cons.IH [OF ne] False ne show ?thesis
      using assms(1) by (simp add: Let_def eq)
  qed
qed

lemma spec_updateById_absent: "\<forall>x \<in> set c. id' x \<noteq> id' m \<Longrightarrow> spec_updateById m c = c"
  by (induction c) auto

lemma map_spec_updateById:
  "map withStatus (spec_updateById m c) = spec_updateById (withStatus m) (map withStatus c)"
  by (induction c) auto

lemma getMemories_saveMemory: "getMemories (saveMemory m s) = withStatus m # getMemories s"
  by (simp add: saveMemory_def getMemories_normal)

lemma getMemories_updateMemory:
  "getMemories (updateMemory m s) = spec_updateById (withStatus m) (getMemories s)"
proof (cases "findIndex (\<lambda>x. id' x = id' m) (getMemories s) = - 1")
  case True
  then have "\<forall>x \<in> set (getMemories s). id' x \<noteq> id' (withStatus m)"
    by (simp add: findIndex_none)
  then have "spec_updateById (withStatus m) (getMemories s) = getMemories s"
    by (rule spec_updateById_absent)
  with True show ?thesis by (simp add: updateMemory_def)
next
  case False
  then have "(getMemories s)[nat (findIndex (\<lambda>x. id' x = id' m) (getMemories s)) := m]
      = spec_updateById m (getMemories s)"
    using findIndex_update [of m m] by simp
  with False show ?thesis
    by (simp add: updateMemory_def map_spec_updateById getMemories_normal)
qed

lemma getMemories_exec:
  "getMemories (exec a s) = map withStatus (spec_effect a (getMemories s))"
  by (cases a)
    (simp_all add: getMemories_saveMemory getMemories_updateMemory map_spec_updateById
       getMemories_normal spec_insert_def spec_clearAll_def clearMemories_def)

lemma spec_effect_withStatus:
  "map withStatus (spec_effect a (map withStatus c)) = map withStatus (spec_effect a c)"
  by (cases a) (simp_all add: spec_insert_def spec_clearAll_def map_spec_updateById comp_def)

lemma fold_spec_withStatus:
  "map withStatus (fold spec_effect as (map withStatus c)) = map withStatus (fold spec_effect as c)"
proof (induction as arbitrary: c)
  case Nil
  show ?case by simp
next
  case (Cons a as)
  have "map withStatus (fold spec_effect as (spec_effect a (map withStatus c)))
      = map withStatus (fold spec_effect as (map withStatus (spec_effect a (map withStatus c))))"
    by (simp only: Cons.IH)
  also have "\<dots> = map withStatus (fold spec_effect as (map withStatus (spec_effect a c)))"
    by (simp only: spec_effect_withStatus)
  also have "\<dots> = map withStatus (fold spec_effect as (spec_effect a c))"
    by (simp only: Cons.IH)
  finally show ?case by simp
qed

lemma spec_updateById_length [simp]: "length (spec_updateById m c) = length c"
  by (induction c) auto

lemma spec_updateById_other:
  "j < length c \<Longrightarrow> id' (c ! j) \<noteq> id' m \<Longrightarrow> spec_updateById m c ! j = c ! j"
proof (induction c arbitrary: j)
  case Nil
  then show ?case by simp
next
  case (Cons x c)
  then show ?case by (cases j) auto
qed

lemma spec_updateById_ids: "id' y = id' m \<Longrightarrow> map id' (spec_updateById y c) = map id' c"
  by (induction c) auto

text \<open>
  Claim C10. Every record that \<^verbatim>\<open>getMemories\<close> returns has a status: it is either pending or
  processed, whatever the stored item is. For a readable item, a record stored without a
  status is returned with the status processed and is otherwise the stored record; a record
  stored with a status is returned as it is.
\<close>

theorem getAll_status_defined:
  "(\<forall>m \<in> set (getMemories s). status m = Some Pending \<or> status m = Some Processed) \<and>
   getMemories (Json ms) =
     map (\<lambda>m. case status m of None \<Rightarrow> m\<lparr>status := Some Processed\<rparr> | Some x \<Rightarrow> m) ms"
proof
  show "\<forall>m \<in> set (getMemories s). status m = Some Pending \<or> status m = Some Processed"
  proof
    fix m assume "m \<in> set (getMemories s)"
    then have "status m \<noteq> None" by (rule getMemories_status)
    then obtain x where "status m = Some x" by auto
    then show "status m = Some Pending \<or> status m = Some Processed" by (cases x) simp_all
  qed
next
  have "withStatus m = (case status m of None \<Rightarrow> m\<lparr>status := Some Processed\<rparr> | Some x \<Rightarrow> m)" for m
    by (cases "status m") (simp_all add: withStatus_def)
  then show "getMemories (Json ms) =
     map (\<lambda>m. case status m of None \<Rightarrow> m\<lparr>status := Some Processed\<rparr> | Some x \<Rightarrow> m) ms"
    by simp
qed

theorem getAll_status_defined_witness:
  "getMemories (Json [memo [0x61] 5 None, memo [0x62] 7 (Some Pending)]) =
     [memo [0x61] 5 (Some Processed), memo [0x62] 7 (Some Pending)]"
  using getAll_status_defined
    [of "Json [memo [0x61] 5 None, memo [0x62] 7 (Some Pending)]"
        "[memo [0x61] 5 None, memo [0x62] 7 (Some Pending)]"]
  by (simp add: memo_def)

text \<open>
  Claim C9. \<^verbatim>\<open>updateMemory m\<close> writes nothing when no record read from the store has the id of
  \<open>m\<close>: the stored item is the same. Otherwise it writes back the collection it read with
  the first record of that id (the only one when ids are unique) replaced by \<open>m\<close> as a
  whole. The collection read afterwards has the same length, and every record whose id
  differs from that of \<open>m\<close> is read unchanged at its position.
\<close>

theorem updateMemory_replaces:
  "((\<forall>x \<in> set (getMemories s). id' x \<noteq> id' m) \<longrightarrow> updateMemory m s = s) \<and>
   ((\<exists>x \<in> set (getMemories s). id' x = id' m) \<longrightarrow>
      (\<exists>i < length (getMemories s).
          id' (getMemories s ! i) = id' m \<and> (\<forall>j < i. id' (getMemories s ! j) \<noteq> id' m) \<and>
          updateMemory m s = Json ((getMemories s)[i := m]))) \<and>
   length (getMemories (updateMemory m s)) = length (getMemories s) \<and>
   (\<forall>j < length (getMemories s).
      id' (getMemories s ! j) \<noteq> id' m \<longrightarrow> getMemories (updateMemory m s) ! j = getMemories s ! j)"
proof (intro conjI impI)
  assume "\<forall>x \<in> set (getMemories s). id' x \<noteq> id' m"
  then have "findIndex (\<lambda>x. id' x = id' m) (getMemories s) = - 1" by (simp add: findIndex_none)
  then show "updateMemory m s = s" by (simp add: updateMemory_def)
next
  let ?i = "findIndex (\<lambda>x. id' x = id' m) (getMemories s)"
  assume "\<exists>x \<in> set (getMemories s). id' x = id' m"
  then have ne: "?i \<noteq> - 1" by (simp add: findIndex_none)
  from findIndex_found [OF ne] have
    "nat ?i < length (getMemories s)" "id' (getMemories s ! nat ?i) = id' m"
    "\<forall>j < nat ?i. id' (getMemories s ! j) \<noteq> id' m" by auto
  moreover have "updateMemory m s = Json ((getMemories s)[nat ?i := m])"
    using ne by (simp add: updateMemory_def Let_def)
  ultimately show "\<exists>i < length (getMemories s).
          id' (getMemories s ! i) = id' m \<and> (\<forall>j < i. id' (getMemories s ! j) \<noteq> id' m) \<and>
          updateMemory m s = Json ((getMemories s)[i := m])" by blast
next
  show "length (getMemories (updateMemory m s)) = length (getMemories s)"
    by (simp add: getMemories_updateMemory)
next
  show "\<forall>j < length (getMemories s).
      id' (getMemories s ! j) \<noteq> id' m \<longrightarrow> getMemories (updateMemory m s) ! j = getMemories s ! j"
    by (simp add: getMemories_updateMemory spec_updateById_other)
qed

theorem updateMemory_replaces_witness:
  "updateMemory (memo [0x62] 9 (Some Processed))
       (Json [memo [0x61] 5 None, memo [0x62] 7 (Some Pending), memo [0x63] 8 (Some Pending)]) =
     Json [memo [0x61] 5 (Some Processed), memo [0x62] 9 (Some Processed),
           memo [0x63] 8 (Some Pending)] \<and>
   updateMemory (memo [0x7A] 9 (Some Processed))
       (Json [memo [0x61] 5 None, memo [0x62] 7 (Some Pending)]) =
     Json [memo [0x61] 5 None, memo [0x62] 7 (Some Pending)]"
  using updateMemory_replaces
    [of "Json [memo [0x61] 5 None, memo [0x62] 7 (Some Pending), memo [0x63] 8 (Some Pending)]"
        "memo [0x62] 9 (Some Processed)"]
    updateMemory_replaces
    [of "Json [memo [0x61] 5 None, memo [0x62] 7 (Some Pending)]"
        "memo [0x7A] 9 (Some Processed)"]
  by (simp add: memo_def withStatus_def updateMemory_def)

lemma spec_updateById_set: "set (spec_updateById m c) \<subseteq> insert m (set c)"
  by (induction c) auto

lemma spec_effect_status:
  assumes "carriesStatus a" and "\<forall>x \<in> set c. status x \<noteq> None"
  shows "\<forall>x \<in> set (spec_effect a c). status x \<noteq> None"
proof (cases a)
  case (Insert m)
  with assms show ?thesis by (simp add: spec_insert_def)
next
  case (UpdateById m)
  have "set (spec_updateById m c) \<subseteq> insert m (set c)" by (rule spec_updateById_set)
  with assms UpdateById show ?thesis by auto
next
  case ClearAll
  then show ?thesis by (simp add: spec_clearAll_def)
qed

lemma map_withStatus_fixed: "\<forall>x \<in> set c. status x \<noteq> None \<Longrightarrow> map withStatus c = c"
  by (induction c) (simp_all add: withStatus_fixed)

lemma getMemories_exec_exact:
  "carriesStatus a \<Longrightarrow> getMemories (exec a s) = spec_effect a (getMemories s)"
proof -
  assume a: "carriesStatus a"
  have "\<forall>x \<in> set (getMemories s). status x \<noteq> None" by (simp add: getMemories_status)
  with a have "\<forall>x \<in> set (spec_effect a (getMemories s)). status x \<noteq> None"
    by (rule spec_effect_status)
  then have "map withStatus (spec_effect a (getMemories s)) = spec_effect a (getMemories s)"
    by (rule map_withStatus_fixed)
  then show ?thesis by (simp add: getMemories_exec)
qed

lemma calls_refine:
  "getMemories (fold exec as s) = spec_getAll (fold spec_effect as (collection s))"
proof (induction as arbitrary: s)
  case Nil
  show ?case by (simp add: spec_getAll_eq getMemories_collection)
next
  case (Cons a as)
  have "getMemories (fold exec (a # as) s) = spec_getAll (fold spec_effect as (collection (exec a s)))"
    using Cons.IH [of "exec a s"] by simp
  also have "\<dots> = map withStatus (fold spec_effect as (map withStatus (collection (exec a s))))"
    by (simp only: spec_getAll_eq fold_spec_withStatus)
  also have "map withStatus (collection (exec a s)) = map withStatus (spec_effect a (map withStatus (collection s)))"
    using getMemories_exec [of a s] by (simp only: getMemories_collection)
  also have "map withStatus (fold spec_effect as (map withStatus (spec_effect a (map withStatus (collection s)))))
     = map withStatus (fold spec_effect as (spec_effect a (collection s)))"
    by (simp only: fold_spec_withStatus spec_effect_withStatus) 
  finally show ?case by (simp add: spec_getAll_eq)
qed

lemma calls_exact:
  "list_all carriesStatus as \<Longrightarrow> getMemories (fold exec as s) = fold spec_effect as (getMemories s)"
  by (induction as arbitrary: s) (simp_all add: getMemories_exec_exact)

text \<open>
  Claim C4. After any sequence of adapter calls applied in order to any stored item,
  \<^verbatim>\<open>getMemories\<close> returns what get-all of the specification returns on the collection
  obtained by applying to the initial collection, in the same order, the specified effect of
  each call: insert prepends the record, update-by-id replaces the record with the matching
  id as a whole, clear-all empties the collection. Each call acts on the result of the one
  before it; no two writes are merged. When every record written carries a status, the
  result is exactly the specified effects applied in order to what \<^verbatim>\<open>getMemories\<close> returned
  at the start.
\<close>

theorem getAll_after_calls:
  "getMemories (fold exec as s) = spec_getAll (fold spec_effect as (collection s)) \<and>
   (list_all carriesStatus as \<longrightarrow>
      getMemories (fold exec as s) = fold spec_effect as (getMemories s))"
  using calls_refine [of as s] calls_exact [of as s] by blast

theorem getAll_after_calls_witness:
  "getMemories
     (fold exec
        [Insert (memo [0x62] 7 (Some Pending)), UpdateById (memo [0x61] 9 (Some Pending)),
         Insert (memo [0x63] 8 None), UpdateById (memo [0x62] 3 (Some Processed))]
        (Json [memo [0x61] 5 None])) =
     [memo [0x63] 8 (Some Processed), memo [0x62] 3 (Some Processed), memo [0x61] 9 (Some Pending)] \<and>
   getMemories
     (fold exec
        [Insert (memo [0x62] 7 (Some Pending)), UpdateById (memo [0x61] 9 (Some Pending))]
        (Json [memo [0x61] 5 None])) =
     [memo [0x62] 7 (Some Pending), memo [0x61] 9 (Some Pending)] \<and>
   getMemories (fold exec [ClearAll] (Json [memo [0x61] 5 None])) = []"
proof -
  have h: "list_all carriesStatus
     [Insert (memo [0x62] 7 (Some Pending)), UpdateById (memo [0x61] 9 (Some Pending))]"
    by (simp add: memo_def)
  note all = getAll_after_calls
    [of "[Insert (memo [0x62] 7 (Some Pending)), UpdateById (memo [0x61] 9 (Some Pending)),
          Insert (memo [0x63] 8 None), UpdateById (memo [0x62] 3 (Some Processed))]"
        "Json [memo [0x61] 5 None]"]
  note exact = getAll_after_calls
    [of "[Insert (memo [0x62] 7 (Some Pending)), UpdateById (memo [0x61] 9 (Some Pending))]"
        "Json [memo [0x61] 5 None]"]
  note clear = getAll_after_calls [of "[ClearAll]" "Json [memo [0x61] 5 None]"]
  from exact h have "getMemories
     (fold exec
        [Insert (memo [0x62] 7 (Some Pending)), UpdateById (memo [0x61] 9 (Some Pending))]
        (Json [memo [0x61] 5 None])) =
     fold spec_effect
        [Insert (memo [0x62] 7 (Some Pending)), UpdateById (memo [0x61] 9 (Some Pending))]
        (getMemories (Json [memo [0x61] 5 None]))" by blast
  with all clear show ?thesis
    by (simp add: memo_def withStatus_def spec_getAll_def spec_insert_def spec_clearAll_def)
qed

section \<open>Properties of batch reconciliation\<close>

lemma analyzeInput_Parsed:
  "validTime d \<Longrightarrow> ai (length sent) (Extraction a d) = Parsed v \<Longrightarrow>
     analyzeInput ai a d sent = (Inr v, sent @ [Extraction a d])"
  by (simp add: analyzeInput_def)

lemma analyzeInput_fails:
  "\<forall>v. \<not> (validTime d \<and> ai (length sent) (Extraction a d) = Parsed v) \<Longrightarrow>
     \<exists>e. analyzeInput ai a d sent = (Inl e, if validTime d then sent @ [Extraction a d] else sent)"
  by (cases "ai (length sent) (Extraction a d)") (simp_all add: analyzeInput_def)

text \<open>
  The loop in closed form. When the first \<open>length rs\<close> extractions of the loop succeed with the
  results \<open>rs\<close> and, if records remain, the next one fails (its date is invalid, or the remote
  model does not answer with a result), the loop has made one update per extracted record,
  in order, and has sent one request per extracted record and one more for the failing
  record when its date is valid.
\<close>

lemma forOfPending_run:
  assumes "length rs \<le> length ps"
      and "\<forall>i < length rs. validTime (timestamp (ps ! i)) \<and>
              ai (length (requests st) + i) (extractionOf (ps ! i)) = Parsed (rs ! i)"
      and "length rs < length ps \<longrightarrow>
             (\<forall>v. \<not> (validTime (timestamp (ps ! length rs)) \<and>
                    ai (length (requests st) + length rs) (extractionOf (ps ! length rs)) = Parsed v))"
  shows "snd (forOfPending ai ps st) =
           st\<lparr>requests := requests st @ map extractionOf (requested ps (length rs)),
              storage := fold reconcile (zip ps rs) (storage st)\<rparr> \<and>
         (fst (forOfPending ai ps st) = None \<longleftrightarrow> length rs = length ps)"
  using assms
proof (induction ps arbitrary: rs st)
  case Nil
  then show ?case by (simp add: requested_def)
next
  case (Cons m ps)
  show ?case
  proof (cases rs)
    case Nil
    with Cons.prems(3) have "\<forall>v. \<not> (validTime (timestamp m) \<and>
        ai (length (requests st)) (Extraction (analyzeArgOf m) (timestamp m)) = Parsed v)"
      by (simp add: extractionOf_def)
    from analyzeInput_fails [of "timestamp m" ai "requests st" "analyzeArgOf m", OF this] obtain e where
      "analyzeInput ai (analyzeArgOf m) (timestamp m) (requests st) =
         (Inl e, if validTime (timestamp m)
                 then requests st @ [Extraction (analyzeArgOf m) (timestamp m)] else requests st)" ..
    with Nil show ?thesis by (simp add: extractionOf_def requested_def)
  next
    case (Cons r rs')
    let ?st = "st\<lparr>requests := requests st @ [extractionOf m],
                   storage := updateMemory (updatedMem m r) (storage st)\<rparr>"
    from Cons.prems(2) Cons have "validTime (timestamp m) \<and>
        ai (length (requests st)) (Extraction (analyzeArgOf m) (timestamp m)) = Parsed r"
      by (auto simp: extractionOf_def)
    then have step: "forOfPending ai (m # ps) st = forOfPending ai ps ?st"
      by (simp add: analyzeInput_Parsed extractionOf_def)
    have a: "length rs' \<le> length ps" using Cons.prems(1) Cons by simp
    have b: "\<forall>i < length rs'. validTime (timestamp (ps ! i)) \<and>
        ai (length (requests ?st) + i) (extractionOf (ps ! i)) = Parsed (rs' ! i)"
    proof (intro allI impI)
      fix i assume "i < length rs'"
      then have "Suc i < length rs" using Cons by simp
      with Cons.prems(2) have "validTime (timestamp ((m # ps) ! Suc i)) \<and>
          ai (length (requests st) + Suc i) (extractionOf ((m # ps) ! Suc i)) = Parsed (rs ! Suc i)"
        by blast
      then show "validTime (timestamp (ps ! i)) \<and>
          ai (length (requests ?st) + i) (extractionOf (ps ! i)) = Parsed (rs' ! i)"
        using Cons by simp
    qed
    have c: "length rs' < length ps \<longrightarrow>
             (\<forall>v. \<not> (validTime (timestamp (ps ! length rs')) \<and>
                ai (length (requests ?st) + length rs') (extractionOf (ps ! length rs')) = Parsed v))"
      using Cons.prems(3) Cons by simp
    from Cons.IH [OF a b c] show ?thesis
      unfolding step using Cons by (simp add: reconcile_def requested_def)
  qed
qed

text \<open>Every run of the loop is of that form, for some list of results.\<close>

lemma replies_exist:
  "\<exists>rs. length rs \<le> length ps \<and>
        (\<forall>i < length rs. validTime (timestamp (ps ! i)) \<and>
            ai (n + i) (extractionOf (ps ! i)) = Parsed (rs ! i)) \<and>
        (length rs < length ps \<longrightarrow>
           (\<forall>v. \<not> (validTime (timestamp (ps ! length rs)) \<and>
                  ai (n + length rs) (extractionOf (ps ! length rs)) = Parsed v)))"
proof (induction ps arbitrary: n)
  case Nil
  show ?case by simp
next
  case (Cons m ps)
  show ?case
  proof (cases "\<exists>v. validTime (timestamp m) \<and> ai n (extractionOf m) = Parsed v")
    case False
    then have "length [] \<le> length (m # ps) \<and>
        (\<forall>i < length []. validTime (timestamp ((m # ps) ! i)) \<and>
            ai (n + i) (extractionOf ((m # ps) ! i)) = Parsed ([] ! i)) \<and>
        (length [] < length (m # ps) \<longrightarrow>
           (\<forall>v. \<not> (validTime (timestamp ((m # ps) ! length [])) \<and>
                  ai (n + length []) (extractionOf ((m # ps) ! length [])) = Parsed v)))"
      by simp
    then show ?thesis by (rule exI)
  next
    case True
    then obtain v where v: "validTime (timestamp m)" "ai n (extractionOf m) = Parsed v" by blast
    from Cons.IH [of "Suc n"] obtain rs where rs: "length rs \<le> length ps"
        "\<forall>i < length rs. validTime (timestamp (ps ! i)) \<and>
            ai (Suc n + i) (extractionOf (ps ! i)) = Parsed (rs ! i)"
        "length rs < length ps \<longrightarrow>
           (\<forall>v. \<not> (validTime (timestamp (ps ! length rs)) \<and>
                  ai (Suc n + length rs) (extractionOf (ps ! length rs)) = Parsed v))"
      by blast
    have "\<forall>i < length (v # rs). validTime (timestamp ((m # ps) ! i)) \<and>
            ai (n + i) (extractionOf ((m # ps) ! i)) = Parsed ((v # rs) ! i)"
    proof (intro allI impI)
      fix i assume "i < length (v # rs)"
      then show "validTime (timestamp ((m # ps) ! i)) \<and>
            ai (n + i) (extractionOf ((m # ps) ! i)) = Parsed ((v # rs) ! i)"
        using v rs(2) by (cases i) simp_all
    qed
    with rs have "length (v # rs) \<le> length (m # ps) \<and>
        (\<forall>i < length (v # rs). validTime (timestamp ((m # ps) ! i)) \<and>
            ai (n + i) (extractionOf ((m # ps) ! i)) = Parsed ((v # rs) ! i)) \<and>
        (length (v # rs) < length (m # ps) \<longrightarrow>
           (\<forall>w. \<not> (validTime (timestamp ((m # ps) ! length (v # rs))) \<and>
                  ai (n + length (v # rs)) (extractionOf ((m # ps) ! length (v # rs))) = Parsed w)))"
      by simp
    then show ?thesis by (rule exI)
  qed
qed

lemma spec_updateById_hit:
  "distinct (map id' c) \<Longrightarrow> p < length c \<Longrightarrow> id' (c ! p) = id' y \<Longrightarrow> spec_updateById y c ! p = y"
proof (induction c arbitrary: p)
  case Nil
  then show ?case by simp
next
  case (Cons x c)
  show ?case
  proof (cases p)
    case 0
    with Cons.prems show ?thesis by simp
  next
    case (Suc q)
    with Cons.prems have "q < length c" by simp
    then have "id' (c ! q) \<in> id' ` set c" by (intro imageI nth_mem)
    moreover have "id' x \<notin> id' ` set c" using Cons.prems(1) by simp
    moreover have "id' (c ! q) = id' y" using Cons.prems(3) Suc by simp
    ultimately have "id' x \<noteq> id' y" by metis
    with Cons Suc show ?thesis by simp
  qed
qed

lemma withStatus_updatedMem [simp]: "withStatus (updatedMem m r) = updatedMem m r"
  by (simp add: withStatus_def updatedMem_def)

lemma id_updatedMem [simp]: "id' (updatedMem m r) = id' m"
  by (simp add: updatedMem_def)

lemma getMemories_reconcile:
  "getMemories (reconcile u s) = spec_updateById (updatedMem (fst u) (snd u)) (getMemories s)"
  by (simp add: reconcile_def getMemories_updateMemory)

lemma reconcile_ids: "map id' (getMemories (fold reconcile us s)) = map id' (getMemories s)"
  by (induction us arbitrary: s) (simp_all add: getMemories_reconcile spec_updateById_ids)

lemma reconcile_frame:
  "p < length (getMemories s) \<Longrightarrow> id' (getMemories s ! p) \<notin> id' ` fst ` set us \<Longrightarrow>
     getMemories (fold reconcile us s) ! p = getMemories s ! p"
proof (induction us arbitrary: s)
  case Nil
  show ?case by simp
next
  case (Cons u us)
  have one: "getMemories (reconcile u s) ! p = getMemories s ! p"
    using Cons.prems by (simp add: getMemories_reconcile spec_updateById_other)
  have "getMemories (fold reconcile us (reconcile u s)) ! p = getMemories (reconcile u s) ! p"
    using Cons.prems one by (intro Cons.IH) (simp_all add: getMemories_reconcile)
  with one show ?case by simp
qed

lemma reconcile_hit:
  "distinct (map id' (getMemories s)) \<Longrightarrow> distinct (map (\<lambda>u. id' (fst u)) us) \<Longrightarrow> i < length us \<Longrightarrow>
   p < length (getMemories s) \<Longrightarrow> id' (getMemories s ! p) = id' (fst (us ! i)) \<Longrightarrow>
     getMemories (fold reconcile us s) ! p = updatedMem (fst (us ! i)) (snd (us ! i))"
proof (induction us arbitrary: s i)
  case Nil
  then show ?case by simp
next
  case (Cons u us)
  have ids: "map id' (getMemories (reconcile u s)) = map id' (getMemories s)"
    by (simp add: getMemories_reconcile spec_updateById_ids)
  have len: "length (getMemories (reconcile u s)) = length (getMemories s)"
    by (simp add: getMemories_reconcile)
  have idp: "id' (getMemories (reconcile u s) ! p) = id' (getMemories s ! p)"
    using Cons.prems(4) arg_cong [OF ids, of "\<lambda>xs. xs ! p"] len by simp
  show ?case
  proof (cases i)
    case 0
    have one: "getMemories (reconcile u s) ! p = updatedMem (fst u) (snd u)"
      using Cons.prems 0 by (simp add: getMemories_reconcile spec_updateById_hit)
    have "id' (fst u) \<notin> id' ` fst ` set us" using Cons.prems(2) by (auto simp: image_iff)
    then have "getMemories (fold reconcile us (reconcile u s)) ! p = getMemories (reconcile u s) ! p"
      using Cons.prems(4) len one by (intro reconcile_frame) simp_all
    with one 0 show ?thesis by simp
  next
    case (Suc j)
    have "getMemories (fold reconcile us (reconcile u s)) ! p = updatedMem (fst (us ! j)) (snd (us ! j))"
    proof (rule Cons.IH)
      show "distinct (map id' (getMemories (reconcile u s)))" using Cons.prems(1) ids by simp
      show "distinct (map (\<lambda>u. id' (fst u)) us)" using Cons.prems(2) by simp
      show "j < length us" using Cons.prems(3) Suc by simp
      show "p < length (getMemories (reconcile u s))" using Cons.prems(4) len by simp
      show "id' (getMemories (reconcile u s) ! p) = id' (fst (us ! j))"
        using idp Cons.prems(5) Suc by simp
    qed
    with Suc show ?thesis by simp
  qed
qed

lemma upToDate_memories:
  "upToDate st \<Longrightarrow> memories st = sort_key (\<lambda>m. - timestamp m) (getMemories (storage st))"
  by (simp add: upToDate_def refreshMemories_def)

lemma upToDate_refresh: "upToDate (refreshMemories st)"
  by (simp add: upToDate_def refreshMemories_def)

lemma set_pendingOf:
  "upToDate st \<Longrightarrow> set (pendingOf st) = {m \<in> set (getMemories (storage st)). status m = Some Pending}"
  by (auto simp: pendingOf_def upToDate_memories)

lemma distinct_ids_sort: "distinct (map id' (sort_key f xs)) = distinct (map id' xs)"
  by (simp add: distinct_map)

lemma distinct_pendingOf:
  "upToDate st \<Longrightarrow> uniqueIds st \<Longrightarrow> distinct (map id' (pendingOf st))"
  by (simp add: pendingOf_def upToDate_memories uniqueIds_def distinct_map_filter distinct_ids_sort)

lemma batch_run:
  assumes len: "length rs \<le> length (pendingOf st)"
      and ok: "\<forall>i < length rs. validTime (timestamp (pendingOf st ! i)) \<and>
                 ai (length (requests st) + i) (extractionOf (pendingOf st ! i)) = Parsed (rs ! i)"
      and bad: "length rs < length (pendingOf st) \<longrightarrow>
                 (\<forall>v. \<not> (validTime (timestamp (pendingOf st ! length rs)) \<and>
                        ai (length (requests st) + length rs)
                          (extractionOf (pendingOf st ! length rs)) = Parsed v))"
  shows "storage (handleBatchProcess ai st) = fold reconcile (zip (pendingOf st) rs) (storage st)"
    and "requests (handleBatchProcess ai st) =
           requests st @ map extractionOf (requested (pendingOf st) (length rs))"
    and "alerts (handleBatchProcess ai st) =
           (if length rs < length (pendingOf st) then alerts st @ [batchFailureNotice] else alerts st)"
    and "memories (handleBatchProcess ai st) =
           (if length rs < length (pendingOf st) \<or> pendingOf st = [] then memories st
            else sort_key (\<lambda>m. - timestamp m) (getMemories (storage (handleBatchProcess ai st))))"
proof -
  let ?st1 = "st\<lparr>isProcessingPending := True\<rparr>"
  let ?out = "forOfPending ai (pendingOf st) ?st1"
  have run: "snd ?out =
           ?st1\<lparr>requests := requests ?st1 @ map extractionOf (requested (pendingOf st) (length rs)),
              storage := fold reconcile (zip (pendingOf st) rs) (storage ?st1)\<rparr> \<and>
         (fst ?out = None \<longleftrightarrow> length rs = length (pendingOf st))"
    using len ok bad by (intro forOfPending_run) simp_all
  have all: "storage (handleBatchProcess ai st) = fold reconcile (zip (pendingOf st) rs) (storage st) \<and>
     requests (handleBatchProcess ai st) =
           requests st @ map extractionOf (requested (pendingOf st) (length rs)) \<and>
     alerts (handleBatchProcess ai st) =
           (if length rs < length (pendingOf st) then alerts st @ [batchFailureNotice] else alerts st) \<and>
     memories (handleBatchProcess ai st) =
           (if length rs < length (pendingOf st) \<or> pendingOf st = [] then memories st
            else sort_key (\<lambda>m. - timestamp m) (getMemories (storage (handleBatchProcess ai st))))"
  proof (cases "pendingOf st = []")
    case True
    then have "handleBatchProcess ai st = st"
      by (simp add: handleBatchProcess_def pendingOf_def)
    with True len show ?thesis by (simp add: requested_def)
  next
    case False
    obtain x st2 where out: "?out = (x, st2)" by (cases ?out)
    show ?thesis
    proof (cases x)
      case None
      with run out have "length rs = length (pendingOf st)" by simp
      with run out None False show ?thesis
        by (simp add: handleBatchProcess_def pendingOf_def [symmetric] refreshMemories_def Let_def)
    next
      case (Some e)
      with run out have "length rs \<noteq> length (pendingOf st)" by simp
      with len have "length rs < length (pendingOf st)" by simp
      with run out Some False show ?thesis
        by (simp add: handleBatchProcess_def pendingOf_def [symmetric] Let_def)
    qed
  qed
  from all show "storage (handleBatchProcess ai st) = fold reconcile (zip (pendingOf st) rs) (storage st)" by simp
  from all show "requests (handleBatchProcess ai st) =
           requests st @ map extractionOf (requested (pendingOf st) (length rs))" by simp
  from all show "alerts (handleBatchProcess ai st) =
           (if length rs < length (pendingOf st) then alerts st @ [batchFailureNotice] else alerts st)" by simp
  from all show "memories (handleBatchProcess ai st) =
           (if length rs < length (pendingOf st) \<or> pendingOf st = [] then memories st
            else sort_key (\<lambda>m. - timestamp m) (getMemories (storage (handleBatchProcess ai st))))" by simp
qed

lemma reconciled_view:
  assumes sync: "upToDate st" and uniq: "uniqueIds st"
      and len: "length rs \<le> length (pendingOf st)"
      and i: "i < length (pendingOf st)"
  shows "\<exists>p < length (getMemories (storage st)).
           getMemories (storage st) ! p = pendingOf st ! i \<and>
           getMemories (fold reconcile (zip (pendingOf st) rs) (storage st)) ! p =
             (if i < length rs then updatedMem (pendingOf st ! i) (rs ! i) else pendingOf st ! i)"
proof -
  let ?view = "getMemories (storage st)" and ?ps = "pendingOf st"
  let ?us = "zip ?ps rs"
  have "?ps ! i \<in> set ?ps" using i by simp
  then have "?ps ! i \<in> set ?view" using sync by (simp add: set_pendingOf)
  then obtain p where p: "p < length ?view" "?view ! p = ?ps ! i"
    by (auto simp: in_set_conv_nth)
  have dps: "distinct (map id' ?ps)" using sync uniq by (rule distinct_pendingOf)
  have fsts: "map fst ?us = take (length rs) ?ps" using len by (simp add: map_fst_zip_take min_def)
  have "getMemories (fold reconcile ?us (storage st)) ! p =
          (if i < length rs then updatedMem (?ps ! i) (rs ! i) else ?ps ! i)"
  proof (cases "i < length rs")
    case True
    have "map (\<lambda>u. id' (fst u)) ?us = map id' (map fst ?us)" by simp
    also have "\<dots> = take (length rs) (map id' ?ps)" by (simp only: fsts take_map)
    finally have d: "distinct (map (\<lambda>u. id' (fst u)) ?us)" using dps by simp
    have "getMemories (fold reconcile ?us (storage st)) ! p = updatedMem (fst (?us ! i)) (snd (?us ! i))"
      using uniq d True i p by (intro reconcile_hit) (simp_all add: uniqueIds_def)
    with True i show ?thesis by simp
  next
    case False
    have "id' (?view ! p) \<notin> id' ` fst ` set ?us"
    proof
      assume "id' (?view ! p) \<in> id' ` fst ` set ?us"
      then have "id' (?ps ! i) \<in> id' ` set (map fst ?us)" using p by (simp add: image_image)
      then have "id' (?ps ! i) \<in> set (take (length rs) (map id' ?ps))"
        by (simp only: fsts take_map set_map)
      then obtain j where j: "j < length rs" "j < length ?ps" "map id' ?ps ! j = id' (?ps ! i)"
        by (auto simp: in_set_conv_nth)
      then have eq: "map id' ?ps ! j = map id' ?ps ! i" using i by simp
      have "(map id' ?ps ! j = map id' ?ps ! i) = (j = i)"
        using dps j i by (intro nth_eq_iff_index_eq) simp_all
      with eq have "j = i" by simp
      with j False show False by simp
    qed
    then have "getMemories (fold reconcile ?us (storage st)) ! p = ?view ! p"
      using p by (intro reconcile_frame) simp_all
    with False p show ?thesis by simp
  qed
  with p show ?thesis by blast
qed

lemma processed_not_selected:
  assumes sync: "upToDate st" and uniq: "uniqueIds st"
      and p: "p < length (getMemories (storage st))"
      and st: "status (getMemories (storage st) ! p) = Some Processed"
  shows "id' (getMemories (storage st) ! p) \<notin> id' ` set (pendingOf st)"
proof
  let ?view = "getMemories (storage st)"
  assume "id' (?view ! p) \<in> id' ` set (pendingOf st)"
  then obtain m where m: "m \<in> set (pendingOf st)" "id' m = id' (?view ! p)" by auto
  from m(1) sync have mv: "m \<in> set ?view" "status m = Some Pending" by (simp_all add: set_pendingOf)
  have "inj_on id' (set ?view)" using uniq by (simp add: uniqueIds_def distinct_map)
  moreover have "?view ! p \<in> set ?view" using p by simp
  ultimately have "m = ?view ! p" using mv(1) m(2) by (auto dest: inj_onD)
  with mv(2) st show False by simp
qed

lemma processed_in_memory_not_selected:
  assumes d: "distinct (map id' (memories st))"
      and m: "m \<in> set (memories st)" "status m = Some Processed"
  shows "id' m \<notin> id' ` set (pendingOf st)"
proof
  assume "id' m \<in> id' ` set (pendingOf st)"
  then obtain m' where m': "m' \<in> set (pendingOf st)" "id' m' = id' m" by auto
  then have mm: "m' \<in> set (memories st)" "status m' = Some Pending" by (simp_all add: pendingOf_def)
  have "inj_on id' (set (memories st))" using d by (simp add: distinct_map)
  with mm(1) m(1) m'(2) have "m' = m" by (auto dest: inj_onD)
  with mm(2) m(2) show False by simp
qed

lemmas state_simps = mounted_def initialApp_def memo_def refreshMemories_def withStatus_def
  noTags_def Let_def

lemmas batch_simps = state_simps upToDate_def uniqueIds_def pendingOf_def extractionOf_def
  analyzeArgOf_def handleBatchProcess_def analyzeInput_def validTime_def updateMemory_def
  updatedMem_def fourNotes_def tidy_def firstOnly_def

lemma fourNotes_pending: "pendingOf (mounted fourNotes) = [memo [0x63] 9 (Some Pending), memo [0x64] 8 (Some Pending), memo [0x61] 5 (Some Pending)]"
  by (simp add: batch_simps)

text \<open>
  What one invocation of \<^verbatim>\<open>handleBatchProcess\<close> does, whatever the remote model answers: it
  writes one update per record of an initial segment of the in-memory records whose status
  is pending, in order, and sends the requests of those records (and of the next one if its
  date is valid); the stored collection keeps its length; with unique in-memory ids the
  stored copy of every in-memory record that is processed is read back unchanged; with a
  current in-memory list and unique stored ids every stored record that is processed is read
  back unchanged; with no pending record the state is returned as it is.
\<close>

lemma batch_frame:
  "(\<exists>rs. length rs \<le> length (pendingOf st) \<and>
      storage (handleBatchProcess ai st) = fold reconcile (zip (pendingOf st) rs) (storage st) \<and>
      requests (handleBatchProcess ai st) =
        requests st @ map extractionOf (requested (pendingOf st) (length rs))) \<and>
   list_all (\<lambda>m. status m = Some Pending) (pendingOf st) \<and>
   length (getMemories (storage (handleBatchProcess ai st))) = length (getMemories (storage st)) \<and>
   (distinct (map id' (memories st)) \<longrightarrow>
      distinct (map id' (pendingOf st)) \<and>
      (\<forall>p < length (getMemories (storage st)). \<forall>m \<in> set (memories st).
         status m = Some Processed \<and> id' m = id' (getMemories (storage st) ! p) \<longrightarrow>
         getMemories (storage (handleBatchProcess ai st)) ! p = getMemories (storage st) ! p)) \<and>
   (upToDate st \<and> uniqueIds st \<longrightarrow>
      (\<forall>p < length (getMemories (storage st)).
         status (getMemories (storage st) ! p) = Some Processed \<longrightarrow>
         getMemories (storage (handleBatchProcess ai st)) ! p = getMemories (storage st) ! p)) \<and>
   (pendingOf st = [] \<longrightarrow> handleBatchProcess ai st = st)"
proof -
  let ?ps = "pendingOf st" and ?view = "getMemories (storage st)"
  from replies_exist [of ?ps ai "length (requests st)"] obtain rs where rs:
    "length rs \<le> length ?ps"
    "\<forall>i < length rs. validTime (timestamp (?ps ! i)) \<and>
        ai (length (requests st) + i) (extractionOf (?ps ! i)) = Parsed (rs ! i)"
    "length rs < length ?ps \<longrightarrow>
       (\<forall>v. \<not> (validTime (timestamp (?ps ! length rs)) \<and>
              ai (length (requests st) + length rs) (extractionOf (?ps ! length rs)) = Parsed v))"
    by blast
  note run = batch_run [OF rs]
  have sto: "storage (handleBatchProcess ai st) = fold reconcile (zip ?ps rs) (storage st)"
    by (rule run(1))
  have a: "\<exists>rs. length rs \<le> length ?ps \<and>
            storage (handleBatchProcess ai st) = fold reconcile (zip ?ps rs) (storage st) \<and>
            requests (handleBatchProcess ai st) =
              requests st @ map extractionOf (requested ?ps (length rs))"
    using rs(1) run(1) run(2) by blast
  have b: "list_all (\<lambda>m. status m = Some Pending) ?ps"
    by (simp add: pendingOf_def list_all_iff)
  have c: "length (getMemories (storage (handleBatchProcess ai st))) = length ?view"
    using arg_cong [OF reconcile_ids [of "zip ?ps rs" "storage st"], of length] sto by simp
  have fr: "getMemories (storage (handleBatchProcess ai st)) ! p = ?view ! p"
    if p: "p < length ?view" and n: "id' (?view ! p) \<notin> id' ` set ?ps" for p
  proof -
    have "fst ` set (zip ?ps rs) \<subseteq> set ?ps" by (auto dest: set_zip_leftD)
    with n have "id' (?view ! p) \<notin> id' ` fst ` set (zip ?ps rs)" by blast
    with p show ?thesis unfolding sto by (rule reconcile_frame)
  qed
  have d: "distinct (map id' (memories st)) \<longrightarrow>
      distinct (map id' ?ps) \<and>
      (\<forall>p < length ?view. \<forall>m \<in> set (memories st).
         status m = Some Processed \<and> id' m = id' (?view ! p) \<longrightarrow>
         getMemories (storage (handleBatchProcess ai st)) ! p = ?view ! p)"
  proof (intro impI conjI allI ballI)
    assume h: "distinct (map id' (memories st))"
    then show "distinct (map id' ?ps)" by (simp add: pendingOf_def distinct_map_filter)
    fix p m
    assume p: "p < length ?view" and m: "m \<in> set (memories st)"
      and s: "status m = Some Processed \<and> id' m = id' (?view ! p)"
    from s have "status m = Some Processed" by simp
    with h m have "id' m \<notin> id' ` set ?ps" by (rule processed_in_memory_not_selected)
    with s have "id' (?view ! p) \<notin> id' ` set ?ps" by simp
    with p show "getMemories (storage (handleBatchProcess ai st)) ! p = ?view ! p" by (rule fr)
  qed
  have e: "upToDate st \<and> uniqueIds st \<longrightarrow>
      (\<forall>p < length ?view. status (?view ! p) = Some Processed \<longrightarrow>
         getMemories (storage (handleBatchProcess ai st)) ! p = ?view ! p)"
  proof (intro impI allI)
    fix p
    assume h: "upToDate st \<and> uniqueIds st"
      and p: "p < length ?view" and s: "status (?view ! p) = Some Processed"
    from h p s have "id' (?view ! p) \<notin> id' ` set ?ps" by (simp add: processed_not_selected)
    with p show "getMemories (storage (handleBatchProcess ai st)) ! p = ?view ! p" by (rule fr)
  qed
  have f: "?ps = [] \<longrightarrow> handleBatchProcess ai st = st"
    by (simp add: handleBatchProcess_def pendingOf_def)
  from a b c d e f show ?thesis by blast
qed

text \<open>
  Claim C5. The claim is that an invocation of the batch reconciliation selects and updates
  only records whose status is pending and leaves every processed record unchanged, so that
  re-running it is harmless. The program does otherwise on the re-run after an aborted run.
  \<^verbatim>\<open>refreshMemories\<close> is called only when the loop completes, so after the abort the in-memory
  list is the one from before the run, although the store already holds the record of id
  \<^verbatim>\<open>c\<close> as processed with the content \<^verbatim>\<open>Hi\<close>. The next invocation selects that record from the
  in-memory list, sends its extraction a second time and overwrites the stored processed
  record: its content becomes \<^verbatim>\<open>Z\<close>.
\<close>

theorem retry_rewrites_processed:
  "memories (handleBatchProcess firstOnly (mounted fourNotes)) = memories (mounted fourNotes) \<and>
   id' (getMemories (storage (handleBatchProcess firstOnly (mounted fourNotes))) ! 2) = [0x63] \<and>
   status (getMemories (storage (handleBatchProcess firstOnly (mounted fourNotes))) ! 2) =
     Some Processed \<and>
   processedContent (getMemories (storage (handleBatchProcess firstOnly (mounted fourNotes))) ! 2) =
     [0x48, 0x69] \<and>
   requests (handleBatchProcess (always retidy) (handleBatchProcess firstOnly (mounted fourNotes))) =
     [extractionOf (memo [0x63] 9 (Some Pending)), extractionOf (memo [0x64] 8 (Some Pending)),
      extractionOf (memo [0x63] 9 (Some Pending)), extractionOf (memo [0x64] 8 (Some Pending)),
      extractionOf (memo [0x61] 5 (Some Pending))] \<and>
   id' (getMemories (storage (handleBatchProcess (always retidy)
          (handleBatchProcess firstOnly (mounted fourNotes)))) ! 2) = [0x63] \<and>
   processedContent (getMemories (storage (handleBatchProcess (always retidy)
          (handleBatchProcess firstOnly (mounted fourNotes)))) ! 2) = [0x5A]"
  by (simp add: batch_simps always_def retidy_def)

text \<open>
  Claim C1. Let the in-memory list be current and the stored ids unique, let there be \<open>n\<close>
  pending records, and let the extraction succeed with the results \<open>rs\<close> for the first \<open>k - 1\<close>
  of them, in the order of the list, and fail for the \<open>k\<close>-th (\<open>1 \<le> k \<le> n\<close>): its date is
  invalid, or the remote model does not answer with a result. After the run every pending
  record is still stored at its position. Each of the first \<open>k - 1\<close> is stored as the old
  record with the processed content and the tags of its result and the status processed;
  each of the others is stored exactly as it was, still pending. The ids of the stored
  collection are the same, position by position, and exactly one notice has been added to
  the alerts.
\<close>

theorem batch_abort_keeps_progress:
  assumes sync: "upToDate st" and uniq: "uniqueIds st"
      and k: "1 \<le> k" "k \<le> length (pendingOf st)" and len: "length rs = k - 1"
      and ok: "\<forall>i < k - 1. validTime (timestamp (pendingOf st ! i)) \<and>
                 ai (length (requests st) + i) (extractionOf (pendingOf st ! i)) = Parsed (rs ! i)"
      and bad: "\<not> validTime (timestamp (pendingOf st ! (k - 1))) \<or>
                (\<forall>v. ai (length (requests st) + (k - 1)) (extractionOf (pendingOf st ! (k - 1)))
                   \<noteq> Parsed v)"
  shows "(\<forall>i < length (pendingOf st). \<exists>p < length (getMemories (storage st)).
            getMemories (storage st) ! p = pendingOf st ! i \<and>
            getMemories (storage (handleBatchProcess ai st)) ! p =
              (if i < k - 1
               then (pendingOf st ! i)\<lparr>processedContent := processedContent' (rs ! i),
                      tags := tags' (rs ! i), status := Some Processed\<rparr>
               else pendingOf st ! i) \<and>
            status (getMemories (storage (handleBatchProcess ai st)) ! p) =
              Some (if i < k - 1 then Processed else Pending) \<and>
            processedContent (getMemories (storage (handleBatchProcess ai st)) ! p) =
              (if i < k - 1 then processedContent' (rs ! i) else processedContent (pendingOf st ! i)) \<and>
            tags (getMemories (storage (handleBatchProcess ai st)) ! p) =
              (if i < k - 1 then tags' (rs ! i) else tags (pendingOf st ! i))) \<and>
         map id' (getMemories (storage (handleBatchProcess ai st))) = map id' (getMemories (storage st)) \<and>
         alerts (handleBatchProcess ai st) = alerts st @ [batchFailureNotice]"
proof -
  let ?ps = "pendingOf st"
  let ?after = "getMemories (storage (handleBatchProcess ai st))"
  have l: "length rs \<le> length ?ps" "length rs < length ?ps" using k len by simp_all
  have ok': "\<forall>i < length rs. validTime (timestamp (?ps ! i)) \<and>
      ai (length (requests st) + i) (extractionOf (?ps ! i)) = Parsed (rs ! i)"
    using ok len by simp
  have bad': "length rs < length ?ps \<longrightarrow>
       (\<forall>v. \<not> (validTime (timestamp (?ps ! length rs)) \<and>
              ai (length (requests st) + length rs) (extractionOf (?ps ! length rs)) = Parsed v))"
    using bad len by auto
  note run = batch_run [OF l(1) ok' bad']
  have a: "\<forall>i < length ?ps. \<exists>p < length (getMemories (storage st)).
            getMemories (storage st) ! p = ?ps ! i \<and>
            ?after ! p =
              (if i < k - 1
               then (?ps ! i)\<lparr>processedContent := processedContent' (rs ! i),
                      tags := tags' (rs ! i), status := Some Processed\<rparr>
               else ?ps ! i) \<and>
            status (?after ! p) = Some (if i < k - 1 then Processed else Pending) \<and>
            processedContent (?after ! p) =
              (if i < k - 1 then processedContent' (rs ! i) else processedContent (?ps ! i)) \<and>
            tags (?after ! p) = (if i < k - 1 then tags' (rs ! i) else tags (?ps ! i))"
  proof (intro allI impI)
    fix i assume i: "i < length ?ps"
    from reconciled_view [OF sync uniq l(1) i] obtain p where p:
      "p < length (getMemories (storage st))" "getMemories (storage st) ! p = ?ps ! i"
      "getMemories (fold reconcile (zip ?ps rs) (storage st)) ! p =
         (if i < length rs then updatedMem (?ps ! i) (rs ! i) else ?ps ! i)" by blast
    have "?ps ! i \<in> set ?ps" using i by simp
    then have pend: "status (?ps ! i) = Some Pending" by (simp add: pendingOf_def)
    have eq: "?after ! p =
              (if i < k - 1
               then (?ps ! i)\<lparr>processedContent := processedContent' (rs ! i),
                      tags := tags' (rs ! i), status := Some Processed\<rparr>
               else ?ps ! i)"
      using p(3) len by (simp add: run(1) updatedMem_def)
    have "status (?after ! p) = Some (if i < k - 1 then Processed else Pending) \<and>
          processedContent (?after ! p) =
              (if i < k - 1 then processedContent' (rs ! i) else processedContent (?ps ! i)) \<and>
          tags (?after ! p) = (if i < k - 1 then tags' (rs ! i) else tags (?ps ! i))"
      unfolding eq using pend by simp
    with p(1,2) eq show "\<exists>p < length (getMemories (storage st)).
            getMemories (storage st) ! p = ?ps ! i \<and>
            ?after ! p =
              (if i < k - 1
               then (?ps ! i)\<lparr>processedContent := processedContent' (rs ! i),
                      tags := tags' (rs ! i), status := Some Processed\<rparr>
               else ?ps ! i) \<and>
            status (?after ! p) = Some (if i < k - 1 then Processed else Pending) \<and>
            processedContent (?after ! p) =
              (if i < k - 1 then processedContent' (rs ! i) else processedContent (?ps ! i)) \<and>
            tags (?after ! p) = (if i < k - 1 then tags' (rs ! i) else tags (?ps ! i))"
      by blast
  qed
  have b: "map id' ?after = map id' (getMemories (storage st))"
    by (simp add: run(1) reconcile_ids)
  have c: "alerts (handleBatchProcess ai st) = alerts st @ [batchFailureNotice]"
    using run(3) l(2) by simp
  from a b c show ?thesis by blast
qed

theorem batch_abort_keeps_progress_witness:
  "getMemories (storage (handleBatchProcess firstOnly (mounted fourNotes))) =
     [memo [0x61] 5 (Some Pending), memo [0x62] 7 (Some Processed),
      \<lparr>id' = [0x63], rawContent = [0x68, 0x69], processedContent = [0x48, 0x69], timestamp = 9,
       tags = noTags\<lparr>Action := Some [[0x67, 0x6F]]\<rparr>, status = Some Processed,
       audioData = None, mimeType = None\<rparr>,
      memo [0x64] 8 (Some Pending)] \<and>
   alerts (handleBatchProcess firstOnly (mounted fourNotes)) = [batchFailureNotice] \<and>
   getMemories (storage (handleBatchProcess (always tidy) (mounted farNotes))) =
     [memo [0x61] 8640000000000001 (Some Pending), memo [0x62] 7 (Some Pending)] \<and>
   requests (handleBatchProcess (always tidy) (mounted farNotes)) = [] \<and>
   alerts (handleBatchProcess (always tidy) (mounted farNotes)) = [batchFailureNotice]"
proof -
  have h1: "upToDate (mounted fourNotes)" by (simp add: batch_simps)
  have h2: "uniqueIds (mounted fourNotes)" by (simp add: batch_simps)
  have h3: "(1::nat) \<le> 2" "2 \<le> length (pendingOf (mounted fourNotes))" "length [tidy] = 2 - 1"
    by (simp_all add: fourNotes_pending)
  have r0: "requests (mounted fourNotes) = []" by (simp add: state_simps)
  have h4: "\<forall>i < 2 - 1. validTime (timestamp (pendingOf (mounted fourNotes) ! i)) \<and>
               firstOnly (length (requests (mounted fourNotes)) + i)
               (extractionOf (pendingOf (mounted fourNotes) ! i)) = Parsed ([tidy] ! i)"
    by (simp add: fourNotes_pending r0 memo_def validTime_def firstOnly_def)
  have h5: "\<not> validTime (timestamp (pendingOf (mounted fourNotes) ! (2 - 1))) \<or>
            (\<forall>v. firstOnly (length (requests (mounted fourNotes)) + (2 - 1))
               (extractionOf (pendingOf (mounted fourNotes) ! (2 - 1))) \<noteq> Parsed v)"
    by (simp add: firstOnly_def mounted_def initialApp_def refreshMemories_def)
  from batch_abort_keeps_progress [OF h1 h2 h3 h4 h5]
  have "alerts (handleBatchProcess firstOnly (mounted fourNotes)) =
          alerts (mounted fourNotes) @ [batchFailureNotice]" by blast
  moreover have "alerts (mounted fourNotes) = []" by (simp add: batch_simps)
  moreover have "getMemories (storage (handleBatchProcess firstOnly (mounted fourNotes))) =
     [memo [0x61] 5 (Some Pending), memo [0x62] 7 (Some Processed),
      \<lparr>id' = [0x63], rawContent = [0x68, 0x69], processedContent = [0x48, 0x69], timestamp = 9,
       tags = noTags\<lparr>Action := Some [[0x67, 0x6F]]\<rparr>, status = Some Processed,
       audioData = None, mimeType = None\<rparr>,
      memo [0x64] 8 (Some Pending)]"
    by (simp add: batch_simps)
  moreover
  have far: "pendingOf (mounted farNotes) =
      [memo [0x61] 8640000000000001 (Some Pending), memo [0x62] 7 (Some Pending)]"
    by (simp add: batch_simps farNotes_def)
  have g1: "upToDate (mounted farNotes)" by (simp add: batch_simps farNotes_def)
  have g2: "uniqueIds (mounted farNotes)" by (simp add: batch_simps farNotes_def)
  have g3: "(1::nat) \<le> 1" "1 \<le> length (pendingOf (mounted farNotes))" "length ([]::Analysis list) = 1 - 1"
    by (simp_all add: far)
  have g4: "\<forall>i < 1 - 1. validTime (timestamp (pendingOf (mounted farNotes) ! i)) \<and>
               always tidy (length (requests (mounted farNotes)) + i)
               (extractionOf (pendingOf (mounted farNotes) ! i)) = Parsed ([] ! i)"
    by simp
  have g5: "\<not> validTime (timestamp (pendingOf (mounted farNotes) ! (1 - 1))) \<or>
            (\<forall>v. always tidy (length (requests (mounted farNotes)) + (1 - 1))
               (extractionOf (pendingOf (mounted farNotes) ! (1 - 1))) \<noteq> Parsed v)"
    by (simp add: far memo_def validTime_def)
  from batch_abort_keeps_progress [OF g1 g2 g3 g4 g5]
  have "alerts (handleBatchProcess (always tidy) (mounted farNotes)) =
          alerts (mounted farNotes) @ [batchFailureNotice]" by blast
  moreover have "alerts (mounted farNotes) = []" by (simp add: batch_simps)
  moreover have "getMemories (storage (handleBatchProcess (always tidy) (mounted farNotes))) =
     [memo [0x61] 8640000000000001 (Some Pending), memo [0x62] 7 (Some Pending)]"
    by (simp add: batch_simps farNotes_def always_def)
  moreover have "requests (handleBatchProcess (always tidy) (mounted farNotes)) = []"
    by (simp add: batch_simps farNotes_def always_def)
  ultimately show ?thesis by simp
qed

text \<open>
  Claim C6. Under the same conditions on the state, when the extraction of a pending record
  that carries audio data and a MIME type has succeeded (whether or not a later one fails),
  the stored record at its position is the old record with only the processed content, the
  tags and the status replaced: the audio data, the MIME type, the id, the raw content and
  the timestamp are the same.
\<close>

theorem reconciliation_keeps_audio:
  assumes sync: "upToDate st" and uniq: "uniqueIds st"
      and len: "length rs \<le> length (pendingOf st)"
      and ok: "\<forall>i < length rs. validTime (timestamp (pendingOf st ! i)) \<and>
                 ai (length (requests st) + i) (extractionOf (pendingOf st ! i)) = Parsed (rs ! i)"
      and bad: "length rs < length (pendingOf st) \<longrightarrow>
                 \<not> validTime (timestamp (pendingOf st ! length rs)) \<or>
                 (\<forall>v. ai (length (requests st) + length rs)
                        (extractionOf (pendingOf st ! length rs)) \<noteq> Parsed v)"
      and i: "i < length rs"
      and audio: "audioData (pendingOf st ! i) = Some d" "mimeType (pendingOf st ! i) = Some t"
  shows "\<exists>p < length (getMemories (storage st)).
           getMemories (storage st) ! p = pendingOf st ! i \<and>
           getMemories (storage (handleBatchProcess ai st)) ! p =
             (pendingOf st ! i)\<lparr>processedContent := processedContent' (rs ! i),
                tags := tags' (rs ! i), status := Some Processed\<rparr> \<and>
           audioData (getMemories (storage (handleBatchProcess ai st)) ! p) = Some d \<and>
           mimeType (getMemories (storage (handleBatchProcess ai st)) ! p) = Some t \<and>
           id' (getMemories (storage (handleBatchProcess ai st)) ! p) = id' (pendingOf st ! i) \<and>
           rawContent (getMemories (storage (handleBatchProcess ai st)) ! p) =
             rawContent (pendingOf st ! i) \<and>
           timestamp (getMemories (storage (handleBatchProcess ai st)) ! p) =
             timestamp (pendingOf st ! i)"
proof -
  let ?ps = "pendingOf st"
  have i': "i < length ?ps" using i len by simp
  have bad': "length rs < length ?ps \<longrightarrow>
       (\<forall>v. \<not> (validTime (timestamp (?ps ! length rs)) \<and>
              ai (length (requests st) + length rs) (extractionOf (?ps ! length rs)) = Parsed v))"
    using bad by auto
  note run = batch_run [OF len ok bad']
  from reconciled_view [OF sync uniq len i'] obtain p where p:
      "p < length (getMemories (storage st))" "getMemories (storage st) ! p = ?ps ! i"
      "getMemories (fold reconcile (zip ?ps rs) (storage st)) ! p =
         (if i < length rs then updatedMem (?ps ! i) (rs ! i) else ?ps ! i)" by blast
  have "getMemories (storage (handleBatchProcess ai st)) ! p = updatedMem (?ps ! i) (rs ! i)"
    using p(3) i by (simp add: run(1))
  with p(1,2) audio show ?thesis by (auto simp: updatedMem_def)
qed

lemma voice_pending: "pendingOf voiceApp =
   [\<lparr>id' = [0x76], rawContent = [0x5B, 0x8BED, 0x97F3, 0x8BB0, 0x5F55, 0x5D],
     processedContent = [0x5B, 0x8BED, 0x97F3, 0x8BB0, 0x5F55, 0x5D, 0x20, 0x28, 0x5F85, 0x6574, 0x7406, 0x29],
     timestamp = 100, tags = noTags, status = Some Pending,
     audioData = Some [0x41, 0x42],
     mimeType = Some [0x61, 0x75, 0x64, 0x69, 0x6F, 0x2F, 0x77, 0x65, 0x62, 0x6D]\<rparr>]"
  by (simp add: voiceApp_def saveAudioMemory_def saveMemory_def batch_simps)

theorem reconciliation_keeps_audio_witness:
  "getMemories (storage (handleBatchProcess (always tidy) voiceApp)) =
     [\<lparr>id' = [0x76], rawContent = [0x5B, 0x8BED, 0x97F3, 0x8BB0, 0x5F55, 0x5D],
       processedContent = [0x48, 0x69], timestamp = 100,
       tags = noTags\<lparr>Action := Some [[0x67, 0x6F]]\<rparr>, status = Some Processed,
       audioData = Some [0x41, 0x42],
       mimeType = Some [0x61, 0x75, 0x64, 0x69, 0x6F, 0x2F, 0x77, 0x65, 0x62, 0x6D]\<rparr>,
      memo [0x62] 7 (Some Processed)] \<and>
   requests (handleBatchProcess (always tidy) voiceApp) =
     [Extraction (InlineData [0x61, 0x75, 0x64, 0x69, 0x6F, 0x2F, 0x77, 0x65, 0x62, 0x6D] [0x41, 0x42]) 100]"
proof -
  have h1: "upToDate voiceApp"
    by (simp add: voiceApp_def saveAudioMemory_def upToDate_def refreshMemories_def Let_def)
  have h2: "uniqueIds voiceApp"
    by (simp add: voiceApp_def saveAudioMemory_def saveMemory_def batch_simps)
  have h3: "length [tidy] \<le> length (pendingOf voiceApp)" by (simp add: voice_pending)
  have h4: "\<forall>i < length [tidy]. validTime (timestamp (pendingOf voiceApp ! i)) \<and>
              always tidy (length (requests voiceApp) + i)
              (extractionOf (pendingOf voiceApp ! i)) = Parsed ([tidy] ! i)"
    by (simp add: always_def voice_pending validTime_def)
  have h5: "length [tidy] < length (pendingOf voiceApp) \<longrightarrow>
      \<not> validTime (timestamp (pendingOf voiceApp ! length [tidy])) \<or>
      (\<forall>v. always tidy (length (requests voiceApp) + length [tidy])
             (extractionOf (pendingOf voiceApp ! length [tidy])) \<noteq> Parsed v)"
    by (simp add: voice_pending)
  have h6: "0 < length [tidy]" by simp
  have h7: "audioData (pendingOf voiceApp ! 0) = Some [0x41, 0x42]"
    "mimeType (pendingOf voiceApp ! 0) = Some [0x61, 0x75, 0x64, 0x69, 0x6F, 0x2F, 0x77, 0x65, 0x62, 0x6D]"
    by (simp_all add: voice_pending)
  from reconciliation_keeps_audio [OF h1 h2 h3 h4 h5 h6 h7]
  have "\<exists>p < length (getMemories (storage voiceApp)).
          audioData (getMemories (storage (handleBatchProcess (always tidy) voiceApp)) ! p) = Some [0x41, 0x42]"
    by blast
  moreover have "getMemories (storage (handleBatchProcess (always tidy) voiceApp)) =
     [\<lparr>id' = [0x76], rawContent = [0x5B, 0x8BED, 0x97F3, 0x8BB0, 0x5F55, 0x5D],
       processedContent = [0x48, 0x69], timestamp = 100,
       tags = noTags\<lparr>Action := Some [[0x67, 0x6F]]\<rparr>, status = Some Processed,
       audioData = Some [0x41, 0x42],
       mimeType = Some [0x61, 0x75, 0x64, 0x69, 0x6F, 0x2F, 0x77, 0x65, 0x62, 0x6D]\<rparr>,
      memo [0x62] 7 (Some Processed)]"
    by (simp add: voiceApp_def saveAudioMemory_def saveMemory_def always_def batch_simps)
  moreover have "requests (handleBatchProcess (always tidy) voiceApp) =
     [Extraction (InlineData [0x61, 0x75, 0x64, 0x69, 0x6F, 0x2F, 0x77, 0x65, 0x62, 0x6D] [0x41, 0x42]) 100]"
    by (simp add: voiceApp_def saveAudioMemory_def saveMemory_def always_def batch_simps)
  ultimately show ?thesis by simp
qed

lemma trim_scenarioText: "trim scenarioText \<noteq> []"
  by (simp add: trim_def scenarioText_def isWhiteSpace_def)

text \<open>
  Claim C2. From any state whose stored ids are unique and do not contain the new id, and
  whose stored pending records have valid dates, submitting the scenario text at a valid
  time \<open>t0\<close> (the custom date if one is set, the clock otherwise) stores, in front of the
  collection, a record with status pending whose raw and processed content are the text.
  Running the batch reconciliation next, with a remote model that answers every extraction
  with the scenario's result, leaves that record, still first in the store, with status
  processed, the processed content of the result and the one tag under \<^verbatim>\<open>Object\<close>; the other
  fields are as captured.
\<close>

theorem capture_then_reconcile:
  assumes uniq: "uniqueIds st" and fresh: "newId \<notin> id' ` set (getMemories (storage st))"
      and t0: "t0 = (case customDate of Some d \<Rightarrow> d | None \<Rightarrow> now)"
      and valid: "validTime t0"
      and stored: "\<forall>m \<in> set (getMemories (storage st)).
                     status m = Some Pending \<longrightarrow> validTime (timestamp m)"
      and st1: "st1 = handleTextSubmit scenarioText customDate now newId st"
      and st2: "st2 = handleBatchProcess (always scenarioAnalysis) st1"
  shows "getMemories (storage st1) =
           \<lparr>id' = newId, rawContent = scenarioText, processedContent = scenarioText,
            timestamp = t0, tags = noTags, status = Some Pending,
            audioData = None, mimeType = None\<rparr> # getMemories (storage st) \<and>
         getMemories (storage st2) ! 0 =
           \<lparr>id' = newId, rawContent = scenarioText,
            processedContent = [0x8D2D, 0x4E70, 0x725B, 0x5976],
            timestamp = t0, tags = noTags\<lparr>Object := Some [[0x725B, 0x5976]]\<rparr>,
            status = Some Processed, audioData = None, mimeType = None\<rparr>"
proof -
  let ?new = "\<lparr>id' = newId, rawContent = scenarioText, processedContent = scenarioText,
            timestamp = t0, tags = noTags, status = Some Pending,
            audioData = None, mimeType = None\<rparr>"
  have st1': "st1 = refreshMemories (st\<lparr>storage := saveMemory ?new (storage st)\<rparr>)"
    using st1 t0 trim_scenarioText by (simp add: handleTextSubmit_def)
  have view1: "getMemories (storage st1) = ?new # getMemories (storage st)"
    by (simp add: st1' refreshMemories_def getMemories_saveMemory withStatus_def)
  have sync1: "upToDate st1" unfolding st1' by (rule upToDate_refresh)
  have uniq1: "uniqueIds st1" using uniq fresh by (simp add: uniqueIds_def view1)
  let ?ps = "pendingOf st1"
  let ?rs = "replicate (length ?ps) scenarioAnalysis"
  have "length ?rs \<le> length ?ps" by simp
  moreover have "\<forall>i < length ?rs. validTime (timestamp (?ps ! i)) \<and>
                   always scenarioAnalysis (length (requests st1) + i)
                   (extractionOf (?ps ! i)) = Parsed (?rs ! i)"
  proof (intro allI impI conjI)
    fix i assume "i < length ?rs"
    then have "?ps ! i \<in> set ?ps" by simp
    then have "?ps ! i \<in> set (getMemories (storage st1))" "status (?ps ! i) = Some Pending"
      using sync1 by (simp_all add: set_pendingOf)
    then show "validTime (timestamp (?ps ! i))" using valid stored by (auto simp: view1)
    show "always scenarioAnalysis (length (requests st1) + i) (extractionOf (?ps ! i)) = Parsed (?rs ! i)"
      using \<open>i < length ?rs\<close> by (simp add: always_def)
  qed
  moreover have "length ?rs < length ?ps \<longrightarrow>
      (\<forall>v. \<not> (validTime (timestamp (?ps ! length ?rs)) \<and>
             always scenarioAnalysis (length (requests st1) + length ?rs)
               (extractionOf (?ps ! length ?rs)) = Parsed v))" by simp
  ultimately have sto: "storage st2 = fold reconcile (zip ?ps ?rs) (storage st1)"
    unfolding st2 by (rule batch_run(1))
  have "?new \<in> set ?ps" using sync1 by (simp add: set_pendingOf view1)
  then obtain i where i: "i < length ?ps" "?ps ! i = ?new" by (auto simp: in_set_conv_nth)
  from reconciled_view [OF sync1 uniq1 _ i(1), of ?rs] obtain p where p:
    "p < length (getMemories (storage st1))" "getMemories (storage st1) ! p = ?ps ! i"
    "getMemories (fold reconcile (zip ?ps ?rs) (storage st1)) ! p =
       (if i < length ?rs then updatedMem (?ps ! i) (?rs ! i) else ?ps ! i)" by auto
  have d: "distinct (getMemories (storage st1))"
    using uniq1 by (simp add: uniqueIds_def distinct_map)
  have "getMemories (storage st1) ! p = getMemories (storage st1) ! 0"
    using p(2) i(2) by (simp add: view1)
  moreover have "0 < length (getMemories (storage st1))" by (simp add: view1)
  ultimately have "p = 0" using d p(1) by (simp add: nth_eq_iff_index_eq)
  with p(3) i have "getMemories (storage st2) ! 0 = updatedMem ?new scenarioAnalysis"
    by (simp add: sto)
  with view1 show ?thesis by (simp add: updatedMem_def scenarioAnalysis_def)
qed

theorem capture_then_reconcile_witness:
  "getMemories (storage (handleTextSubmit scenarioText None 1000 [0x6D] (mounted NoItem))) =
     [\<lparr>id' = [0x6D], rawContent = [0x4E70, 0x725B, 0x5976],
       processedContent = [0x4E70, 0x725B, 0x5976], timestamp = 1000, tags = noTags,
       status = Some Pending, audioData = None, mimeType = None\<rparr>] \<and>
   getMemories (storage (handleBatchProcess (always scenarioAnalysis)
      (handleTextSubmit scenarioText None 1000 [0x6D] (mounted NoItem)))) =
     [\<lparr>id' = [0x6D], rawContent = [0x4E70, 0x725B, 0x5976],
       processedContent = [0x8D2D, 0x4E70, 0x725B, 0x5976], timestamp = 1000,
       tags = noTags\<lparr>Object := Some [[0x725B, 0x5976]]\<rparr>,
       status = Some Processed, audioData = None, mimeType = None\<rparr>] \<and>
   getMemories (storage (handleBatchProcess (always scenarioAnalysis)
      (handleTextSubmit scenarioText None 1000 [0x6D]
         (mounted (Json [memo [0x62] 7 (Some Pending)]))))) ! 0 =
     \<lparr>id' = [0x6D], rawContent = [0x4E70, 0x725B, 0x5976],
      processedContent = [0x8D2D, 0x4E70, 0x725B, 0x5976], timestamp = 1000,
      tags = noTags\<lparr>Object := Some [[0x725B, 0x5976]]\<rparr>,
      status = Some Processed, audioData = None, mimeType = None\<rparr>"
proof -
  let ?st1 = "handleTextSubmit scenarioText None 1000 [0x6D] (mounted NoItem)"
  let ?st2 = "handleBatchProcess (always scenarioAnalysis) ?st1"
  let ?st0 = "mounted (Json [memo [0x62] 7 (Some Pending)])"
  have g1: "uniqueIds ?st0" by (simp add: batch_simps)
  have g2: "[0x6D] \<notin> id' ` set (getMemories (storage ?st0))" by (simp add: batch_simps)
  have g5: "\<forall>m \<in> set (getMemories (storage ?st0)).
              status m = Some Pending \<longrightarrow> validTime (timestamp m)"
    by (simp add: batch_simps)
  have h1: "uniqueIds (mounted NoItem)" by (simp add: batch_simps)
  have h2: "[0x6D] \<notin> id' ` set (getMemories (storage (mounted NoItem)))" by (simp add: batch_simps)
  have h3: "(1000::int) = (case None of Some d \<Rightarrow> d | None \<Rightarrow> 1000)" by simp
  have h4: "validTime 1000" by (simp add: validTime_def)
  have h5: "\<forall>m \<in> set (getMemories (storage (mounted NoItem))).
              status m = Some Pending \<longrightarrow> validTime (timestamp m)" by (simp add: batch_simps)
  from capture_then_reconcile [OF g1 g2 h3 h4 g5 refl refl]
  have c: "getMemories (storage (handleBatchProcess (always scenarioAnalysis)
      (handleTextSubmit scenarioText None 1000 [0x6D] ?st0))) ! 0 =
           \<lparr>id' = [0x6D], rawContent = scenarioText,
            processedContent = [0x8D2D, 0x4E70, 0x725B, 0x5976],
            timestamp = 1000, tags = noTags\<lparr>Object := Some [[0x725B, 0x5976]]\<rparr>,
            status = Some Processed, audioData = None, mimeType = None\<rparr>"
    by blast
  from capture_then_reconcile [OF h1 h2 h3 h4 h5 refl refl]
  have a: "getMemories (storage ?st1) =
           \<lparr>id' = [0x6D], rawContent = scenarioText, processedContent = scenarioText,
            timestamp = 1000, tags = noTags, status = Some Pending,
            audioData = None, mimeType = None\<rparr> # getMemories (storage (mounted NoItem))"
    and b: "getMemories (storage ?st2) ! 0 =
           \<lparr>id' = [0x6D], rawContent = scenarioText,
            processedContent = [0x8D2D, 0x4E70, 0x725B, 0x5976],
            timestamp = 1000, tags = noTags\<lparr>Object := Some [[0x725B, 0x5976]]\<rparr>,
            status = Some Processed, audioData = None, mimeType = None\<rparr>"
    by blast+
  have "length (getMemories (storage ?st2)) = 1"
    by (simp add: handleTextSubmit_def saveMemory_def scenarioText_def scenarioAnalysis_def
          trim_def isWhiteSpace_def always_def batch_simps)
  then obtain x where x: "getMemories (storage ?st2) = [x]"
    by (cases "getMemories (storage ?st2)") simp_all
  with b have "getMemories (storage ?st2) =
     [\<lparr>id' = [0x6D], rawContent = scenarioText,
            processedContent = [0x8D2D, 0x4E70, 0x725B, 0x5976],
            timestamp = 1000, tags = noTags\<lparr>Object := Some [[0x725B, 0x5976]]\<rparr>,
            status = Some Processed, audioData = None, mimeType = None\<rparr>]" by simp
  with a c show ?thesis by (simp add: scenarioText_def batch_simps)
qed

section \<open>Properties of search and suggestions\<close>

lemma semanticSearch_sent:
  "snd (semanticSearch ai q ms sent) = sent @ [Retrieval q ms]"
  by (cases "ai (length sent) (Retrieval q ms)") (simp_all add: semanticSearch_def)

text \<open>
  Claim C3. \<^verbatim>\<open>handleSearch\<close> sends nothing for a blank query; for any other query it sends
  exactly one retrieval request, whose corpus is the in-memory list filtered to the records
  with status processed. Every record of that corpus is processed, none is pending; and when
  the in-memory list is current the corpus holds exactly the stored records that are
  processed.
\<close>

theorem search_corpus_is_processed:
  "requests (handleSearch ai text' st) =
     requests st @ (if trim text' = [] then []
                    else [Retrieval text' (filter (\<lambda>m. status m = Some Processed) (memories st))]) \<and>
   list_all (\<lambda>m. status m = Some Processed \<and> status m \<noteq> Some Pending)
     (filter (\<lambda>m. status m = Some Processed) (memories st)) \<and>
   (upToDate st \<longrightarrow>
      set (filter (\<lambda>m. status m = Some Processed) (memories st)) =
        {m \<in> set (getMemories (storage st)). status m = Some Processed})"
proof (intro conjI impI)
  show "requests (handleSearch ai text' st) =
     requests st @ (if trim text' = [] then []
                    else [Retrieval text' (filter (\<lambda>m. status m = Some Processed) (memories st))])"
  proof (cases "trim text' = []")
    case True
    then show ?thesis by (simp add: handleSearch_def handleClearSearch_def)
  next
    case False
    let ?st1 = "st\<lparr>query := text', isSearching := True\<rparr>"
    obtain r sent where out: "semanticSearch ai text' (processedMemories ?st1) (requests ?st1) = (r, sent)"
      by (cases "semanticSearch ai text' (processedMemories ?st1) (requests ?st1)")
    with semanticSearch_sent [of ai text' "processedMemories ?st1" "requests ?st1"]
    have sent: "sent = requests st @ [Retrieval text' (filter (\<lambda>m. status m = Some Processed) (memories st))]"
      by (simp add: processedMemories_def)
    from False out sent show ?thesis
      by (cases r) (simp_all add: handleSearch_def Let_def)
  qed
next
  show "list_all (\<lambda>m. status m = Some Processed \<and> status m \<noteq> Some Pending)
     (filter (\<lambda>m. status m = Some Processed) (memories st))"
    by (simp add: list_all_iff)
next
  assume "upToDate st"
  then show "set (filter (\<lambda>m. status m = Some Processed) (memories st)) =
        {m \<in> set (getMemories (storage st)). status m = Some Processed}"
    by (auto simp: upToDate_memories)
qed

theorem search_corpus_is_processed_witness:
  "requests (handleSearch down [0x3F] (mounted twoNotes)) =
     [Retrieval [0x3F] [(memo [0x62] 7 (Some Processed))\<lparr>processedContent := [0x71]\<rparr>]] \<and>
   requests (handleSearch down [0x20] (mounted twoNotes)) = []"
proof -
  have "upToDate (mounted twoNotes)" by (simp add: state_simps upToDate_def twoNotes_def)
  with search_corpus_is_processed [of down "[0x3F]" "mounted twoNotes"]
    search_corpus_is_processed [of down "[0x20]" "mounted twoNotes"]
  show ?thesis
    by (simp add: state_simps twoNotes_def down_def handleSearch_def handleClearSearch_def
          semanticSearch_def processedMemories_def trim_def isWhiteSpace_def)
qed

text \<open>
  Claim C7, as amended. On an empty list \<^verbatim>\<open>generateSuggestions\<close> returns the fixed list of three
  static strings and sends no request. When the list is not empty and the remote call
  rejects, or its text does not parse, \<^verbatim>\<open>generateSuggestions\<close> ends with the exception and the
  suggestions component replaces it by its own fixed list of three static strings, which is
  a different list; no error is shown. When the response has no text,
  \<^verbatim>\<open>generateSuggestions\<close> returns the empty list and the component has no suggestion to show.
\<close>

theorem suggestions_fall_back:
  "generateSuggestions ai [] sent = (Inr staticSuggestions, sent) \<and>
   length staticSuggestions = 3 \<and> length catchSuggestions = 3 \<and>
   catchSuggestions \<noteq> staticSuggestions \<and>
   (memories' \<noteq> [] \<and>
    ai (length sent) (Suggestion (join [0x3B, 0x20] (map processedContent (take 10 memories'))))
      \<in> {Rejects, BadJson} \<longrightarrow>
      (\<exists>e. fst (generateSuggestions ai memories' sent) = Inl e) \<and>
      fst (SmartSuggestions ai memories' (ui, sent)) =
        ui\<lparr>suggestions := catchSuggestions, loading := False\<rparr>) \<and>
   (memories' \<noteq> [] \<and>
    ai (length sent) (Suggestion (join [0x3B, 0x20] (map processedContent (take 10 memories'))))
      = NoText \<longrightarrow>
      fst (generateSuggestions ai memories' sent) = Inr [] \<and>
      fst (SmartSuggestions ai memories' (ui, sent)) = ui\<lparr>suggestions := [], loading := False\<rparr>)"
proof (intro conjI impI)
  show "generateSuggestions ai [] sent = (Inr staticSuggestions, sent)"
    by (simp add: generateSuggestions_def)
  show "length staticSuggestions = 3" by (simp add: staticSuggestions_def)
  show "length catchSuggestions = 3" by (simp add: catchSuggestions_def)
  show "catchSuggestions \<noteq> staticSuggestions"
    by (simp add: catchSuggestions_def staticSuggestions_def)
next
  assume a: "memories' \<noteq> [] \<and>
    ai (length sent) (Suggestion (join [0x3B, 0x20] (map processedContent (take 10 memories'))))
      \<in> {Rejects, BadJson}"
  then show "\<exists>e. fst (generateSuggestions ai memories' sent) = Inl e"
    by (auto simp: generateSuggestions_def Let_def)
  from a show "fst (SmartSuggestions ai memories' (ui, sent)) =
        ui\<lparr>suggestions := catchSuggestions, loading := False\<rparr>"
    by (auto simp: SmartSuggestions_def generateSuggestions_def Let_def)
next
  assume b: "memories' \<noteq> [] \<and>
    ai (length sent) (Suggestion (join [0x3B, 0x20] (map processedContent (take 10 memories'))))
      = NoText"
  then show "fst (generateSuggestions ai memories' sent) = Inr []"
    by (simp add: generateSuggestions_def Let_def)
  from b show "fst (SmartSuggestions ai memories' (ui, sent)) =
        ui\<lparr>suggestions := [], loading := False\<rparr>"
    by (simp add: SmartSuggestions_def generateSuggestions_def Let_def)
qed

theorem suggestions_fall_back_witness:
  "generateSuggestions down [] [] = (Inr staticSuggestions, []) \<and>
   SmartSuggestions down [memo [0x62] 7 (Some Processed)] (idle, []) =
     (\<lparr>suggestions = catchSuggestions, loading = False\<rparr>, [Suggestion [0x68, 0x69]]) \<and>
   fst (SmartSuggestions silent [memo [0x62] 7 (Some Processed)] (idle, [])) =
     \<lparr>suggestions = [], loading = False\<rparr>"
proof -
  have h1: "[memo [0x62] 7 (Some Processed)] \<noteq> [] \<and>
     down (length ([]::request list))
       (Suggestion (join [0x3B, 0x20] (map processedContent (take 10 [memo [0x62] 7 (Some Processed)]))))
       \<in> {Rejects, BadJson}"
    by (simp add: down_def)
  have h2: "[memo [0x62] 7 (Some Processed)] \<noteq> [] \<and>
     silent (length ([]::request list))
       (Suggestion (join [0x3B, 0x20] (map processedContent (take 10 [memo [0x62] 7 (Some Processed)]))))
       = NoText"
    by (simp add: silent_def)
  from suggestions_fall_back [of down "[]" "[memo [0x62] 7 (Some Processed)]" idle] h1
  have a: "generateSuggestions down [] [] = (Inr staticSuggestions, [])"
    and b: "fst (SmartSuggestions down [memo [0x62] 7 (Some Processed)] (idle, [])) =
        idle\<lparr>suggestions := catchSuggestions, loading := False\<rparr>" by blast+
  from suggestions_fall_back [of silent "[]" "[memo [0x62] 7 (Some Processed)]" idle] h2
  have c: "fst (SmartSuggestions silent [memo [0x62] 7 (Some Processed)] (idle, [])) =
        idle\<lparr>suggestions := [], loading := False\<rparr>" by blast
  have d: "snd (SmartSuggestions down [memo [0x62] 7 (Some Processed)] (idle, [])) =
        [Suggestion [0x68, 0x69]]"
    by (simp add: memo_def noTags_def idle_def down_def SmartSuggestions_def generateSuggestions_def)
  from a b c d show ?thesis by (simp add: idle_def prod_eq_iff)
qed

text \<open>
  Claim C7 as stated fails: when the response of the remote model has no text, the
  suggestions are the empty list, not three generic suggestions; and the list shown after a
  rejected call is not the list returned for an empty input.
\<close>

theorem suggestions_no_text_counterexample:
  "fst (generateSuggestions silent [memo [0x62] 7 (Some Processed)] []) = Inr [] \<and>
   suggestions (fst (SmartSuggestions silent [memo [0x62] 7 (Some Processed)] (idle, []))) = [] \<and>
   length (suggestions (fst (SmartSuggestions silent [memo [0x62] 7 (Some Processed)] (idle, []))))
     \<noteq> 3 \<and>
   suggestions (fst (SmartSuggestions down [memo [0x62] 7 (Some Processed)] (idle, []))) \<noteq>
     staticSuggestions"
  by (simp add: memo_def noTags_def idle_def silent_def down_def SmartSuggestions_def
        generateSuggestions_def catchSuggestions_def staticSuggestions_def)

lemma generateSuggestions_sent:
  "memories' \<noteq> [] \<Longrightarrow> snd (generateSuggestions ai memories' sent) =
     sent @ [Suggestion (join [0x3B, 0x20] (map processedContent (take 10 memories')))]"
  by (cases "ai (length sent) (Suggestion (join [0x3B, 0x20] (map processedContent (take 10 memories'))))")
     (simp_all add: generateSuggestions_def Let_def)

text \<open>
  Claim C8, as amended. \<^verbatim>\<open>generateSuggestions\<close> puts into its request the processed contents of
  the first ten memories of the list it is given, whatever their status. The application
  gives it the in-memory list filtered to the records with status processed: the suggestion
  request is made of the first ten processed memories, and no request is sent when no
  memory is processed.
\<close>

theorem suggestions_see_processed_only:
  "(memories' \<noteq> [] \<longrightarrow>
      snd (generateSuggestions ai memories' sent) =
        sent @ [Suggestion (join [0x3B, 0x20] (map processedContent (take 10 memories')))]) \<and>
   (searchResult st = None \<and> \<not> isSearching st \<longrightarrow>
      requests (snd (renderSuggestions ai st ui)) =
        requests st @
          (if filter (\<lambda>m. status m = Some Processed) (memories st) = [] then []
           else [Suggestion (join [0x3B, 0x20] (map processedContent
                   (take 10 (filter (\<lambda>m. status m = Some Processed) (memories st)))))]))"
proof (intro conjI impI)
  assume "memories' \<noteq> []"
  then show "snd (generateSuggestions ai memories' sent) =
        sent @ [Suggestion (join [0x3B, 0x20] (map processedContent (take 10 memories')))]"
    by (rule generateSuggestions_sent)
next
  let ?pm = "filter (\<lambda>m. status m = Some Processed) (memories st)"
  assume a: "searchResult st = None \<and> \<not> isSearching st"
  show "requests (snd (renderSuggestions ai st ui)) =
        requests st @
          (if ?pm = [] then []
           else [Suggestion (join [0x3B, 0x20] (map processedContent (take 10 ?pm)))])"
  proof (cases "?pm = []")
    case True
    with a show ?thesis
      by (simp add: renderSuggestions_def SmartSuggestions_def processedMemories_def)
  next
    case False
    obtain r sent' where out: "generateSuggestions ai ?pm (requests st) = (r, sent')"
      by (cases "generateSuggestions ai ?pm (requests st)")
    with generateSuggestions_sent [OF False, of ai "requests st"]
    have "sent' = requests st @ [Suggestion (join [0x3B, 0x20] (map processedContent (take 10 ?pm)))]"
      by simp
    with a False out show ?thesis
      by (cases r) (simp_all add: renderSuggestions_def SmartSuggestions_def processedMemories_def)
  qed
qed

theorem suggestions_see_processed_only_witness:
  "snd (generateSuggestions down [memo [0x61] 9 (Some Pending)] []) = [Suggestion [0x68, 0x69]] \<and>
   requests (snd (renderSuggestions down (mounted twoNotes) idle)) = [Suggestion [0x71]]"
  using suggestions_see_processed_only
    [of "[memo [0x61] 9 (Some Pending)]" down "[]" "mounted twoNotes" idle]
  by (simp add: state_simps twoNotes_def idle_def down_def)

text \<open>
  Claim C8 as stated fails: with a pending memory that is newer than ten processed ones, the
  first ten memories of the collection begin with the pending one, while the request is made
  of the ten processed ones, the eleventh memory included.
\<close>

theorem suggestions_any_status_counterexample:
  "map processedContent (take 10 (memories (mounted elevenNotes))) =
     [[0x70], [0x39], [0x38], [0x37], [0x36], [0x35], [0x34], [0x33], [0x32], [0x31]] \<and>
   requests (snd (renderSuggestions down (mounted elevenNotes) idle)) =
     [Suggestion (join [0x3B, 0x20]
        [[0x39], [0x38], [0x37], [0x36], [0x35], [0x34], [0x33], [0x32], [0x31], [0x30]])] \<and>
   requests (snd (renderSuggestions down (mounted elevenNotes) idle)) \<noteq>
     [Suggestion (join [0x3B, 0x20] (map processedContent (take 10 (memories (mounted elevenNotes)))))]"
  by (simp add: state_simps elevenNotes_def idle_def down_def renderSuggestions_def
        SmartSuggestions_def generateSuggestions_def processedMemories_def)

end
